theory Spec2Isabelle
  imports
    Complex_Main
    "HOL-Library.Word"
    "HOL-Library.Multiset"
    "HOL-Library.Char_ord"
    "HOL-Library.List_Lexorder"
    "HOL-Library.Log_Nat"
begin

unbundle bit_operations_syntax

section \<open>The CloudWatch output plugin (plugins/outputs/cloudwatch/cloudwatch.go)\<close>

subsection \<open>Constants\<close>

definition defaultMaxDatumsPerCall :: int where
  "defaultMaxDatumsPerCall = 20"

definition defaultMaxValuesPerDatum :: int where
  "defaultMaxValuesPerDatum = 150"

definition bottomLinePayloadSizeToPublish :: int where
  "bottomLinePayloadSizeToPublish = 200000"

definition highResolutionTagKey :: string where
  "highResolutionTagKey = ''aws:StorageResolution''"

definition defaultRetryCount :: nat where
  "defaultRetryCount = 5"

definition backoffRetryBase :: int where
  "backoffRetryBase = 200"

subsection \<open>GetUniqueRollupList\<close>

text \<open>
  A rollup rule is a \<^verbatim>\<open>[]string\<close>; \<^verbatim>\<open>reflect.DeepEqual\<close> on two such slices is
  equality of the key sequences (the lists of the model do not distinguish a nil slice
  from an empty one).

  The inner loop \<^verbatim>\<open>for _, u := range uniqueLists\<close> ranges over the slice as it was when
  the loop started (Go evaluates the range expression once), while \<^verbatim>\<open>len(uniqueLists)\<close>
  in its body reads the variable as it is now. \<open>uniqueScan\<close> therefore carries both:
  the elements still to be visited, \<open>cnt\<close> (the source's \<^verbatim>\<open>count\<close>), and the current \<open>uniqueLists\<close>.
\<close>

fun uniqueScan :: "string list \<Rightarrow> string list list \<Rightarrow> nat \<Rightarrow> string list list \<Rightarrow> string list list" where
  "uniqueScan inputList [] cnt uniqueLists = uniqueLists"
| "uniqueScan inputList (u # us) cnt uniqueLists =
     (if inputList = u then uniqueLists
      else let cnt' = cnt + 1;
               uniqueLists' = (if cnt' = length uniqueLists
                               then uniqueLists @ [inputList] else uniqueLists)
           in uniqueScan inputList us cnt' uniqueLists')"

definition GetUniqueRollupList :: "string list list \<Rightarrow> string list list" where
  "GetUniqueRollupList inputLists =
     (let uniqueLists = (if length inputLists > 0 then [inputLists ! 0] else [])
      in foldl (\<lambda>uniqueLists inputList. uniqueScan inputList uniqueLists 0 uniqueLists)
           uniqueLists inputLists)"

text \<open>First-seen deduplication, as a specification: keep an element unless it was seen.\<close>

fun firstSeen :: "'a list \<Rightarrow> 'a list \<Rightarrow> 'a list" where
  "firstSeen seen [] = []"
| "firstSeen seen (x # xs) =
     (if x \<in> set seen then firstSeen seen xs else x # firstSeen (seen @ [x]) xs)"

subsection \<open>Values of the Go program\<close>

text \<open>
  A \<^verbatim>\<open>time.Time\<close> is modelled by its nanoseconds since the Unix epoch; \<^verbatim>\<open>t.Unix()\<close> is
  the number of whole seconds, rounded down. A \<^verbatim>\<open>time.Duration\<close> is a number of
  nanoseconds.
\<close>

type_synonym gotime = int

definition Unix :: "gotime \<Rightarrow> int" where
  "Unix t = t div 1000000000"

text \<open>
  A finite \<^verbatim>\<open>float64\<close> is modelled by the real number it denotes (NaN and the infinities,
  which only a \<^verbatim>\<open>float64\<close> or \<^verbatim>\<open>float32\<close> field could carry and which the code
  passes on untouched, are outside the model). The conversion \<^verbatim>\<open>float64(t)\<close> of an integer
  rounds to 53 significant bits, to nearest, ties to even; integers of a 64-bit type never
  overflow the exponent range.
\<close>

definition float64_of_int :: "int \<Rightarrow> real" where
  "float64_of_int i =
     (let a = \<bar>i\<bar>; e = bitlen a - 53
      in if e \<le> 0 then real_of_int i
         else let q = a div 2 ^ nat e;
                  r = a mod 2 ^ nat e;
                  half = 2 ^ nat (e - 1);
                  q' = (if r > half \<or> (r = half \<and> odd q) then q + 1 else q)
              in real_of_int (sgn i * q' * 2 ^ nat e))"

text \<open>
  A Go map is modelled by the list of its entries, in the order in which \<^verbatim>\<open>range\<close>
  visits them (an order Go leaves unspecified and varies between runs). The keys of a map
  are distinct. An index expression \<^verbatim>\<open>m[k]\<close> on a \<^verbatim>\<open>map[string]string\<close> yields the empty
  string for a missing key.
\<close>

definition wf_gomap :: "('k \<times> 'v) list \<Rightarrow> bool" where
  "wf_gomap m = distinct (map fst m)"

definition index_string :: "(string \<times> string) list \<Rightarrow> string \<Rightarrow> string" where
  "index_string m k = (case map_of m k of Some v \<Rightarrow> v | None \<Rightarrow> [])"

text \<open>
  \<^verbatim>\<open>distribution.Distribution\<close> is an interface of the repository; the model holds what
  its methods return (\<^verbatim>\<open>ValuesAndCounts()\<close> returns the two lists).
\<close>

record distribution =
  distMaximum :: real
  distMinimum :: real
  distSampleCount :: real
  distSum :: real
  distUnit :: string
  distValues :: "real list"
  distCounts :: "real list"
  distSize :: int

text \<open>
  The dynamic type of a field value, as the type switch of \<^verbatim>\<open>BuildMetricDatum\<close> sees it.
  \<^verbatim>\<open>uint\<close> and \<^verbatim>\<open>int\<close> are 64 bits wide. \<open>VOther\<close> stands for a value of any other type
  (a string, say).
\<close>

datatype field_value =
    VUint "64 word" | VUint8 "8 word" | VUint16 "16 word" | VUint32 "32 word" | VUint64 "64 word"
  | VInt "64 word" | VInt8 "8 word" | VInt16 "16 word" | VInt32 "32 word" | VInt64 "64 word"
  | VFloat32 real | VFloat64 real
  | VBool bool
  | VTime gotime
  | VDistribution distribution
  | VOther string

text \<open>A \<^verbatim>\<open>telegraf.Metric\<close>: name, tags, fields and time.\<close>

record metric =
  pointName :: string
  pointTags :: "(string \<times> string) list"
  pointFields :: "(string \<times> field_value) list"
  pointTime :: gotime

definition RemoveTag :: "string \<Rightarrow> metric \<Rightarrow> metric" where
  "RemoveTag key m = m\<lparr>pointTags := filter (\<lambda>kv. fst kv \<noteq> key) (pointTags m)\<rparr>"

datatype dimension = Dimension (dimName: string) (dimValue: string)

record StatisticSet =
  Maximum :: real
  Minimum :: real
  SampleCount :: real
  Sum :: real

text \<open>\<^verbatim>\<open>cloudwatch.MetricDatum\<close>; a field that is a nil pointer or a nil slice is \<open>None\<close>.\<close>

record MetricDatum =
  MetricName :: string
  Dimensions :: "dimension list"
  Timestamp :: gotime
  Value :: "real option"
  Values :: "real list option"
  Counts :: "real list option"
  StatisticValues :: "StatisticSet option"
  Unit :: "string option"
  StorageResolution :: "int option"

text \<open>
  \<^verbatim>\<open>MetricDecorations\<close> is defined in another file of the package; the model takes its two
  lookups, which return the empty string when nothing is configured.
\<close>

record MetricDecorations =
  getRename :: "string \<Rightarrow> string \<Rightarrow> string"
  getUnit :: "string \<Rightarrow> string \<Rightarrow> string"

record MetricDatumBatch =
  batchMaxDatumsPerCall :: int
  Partition :: "MetricDatum list"
  BeginTime :: gotime
  Size :: int
  perRequestConstSize :: int

text \<open>
  The fields of the \<^verbatim>\<open>CloudWatch\<close> struct that the modelled functions read or write.
  \<open>datumBatchChan\<close> holds every batch sent on the channel so far, oldest first (what
  the publisher has already received is kept, so that the list is the history of the
  channel).
\<close>

record CloudWatch =
  Namespace :: string
  ForceFlushInterval :: int
  MaxDatumsPerCall :: int
  MaxValuesPerDatum :: int
  RollupDimensions :: "string list list"
  metricDecorations :: "MetricDecorations option"
  metricDatumBatch :: MetricDatumBatch
  datumBatchChan :: "MetricDatum list list"
  retries :: int

text \<open>
  What the file uses without defining it: \<^verbatim>\<open>runtime.GOOS\<close>, and the package functions
  \<^verbatim>\<open>resize\<close> (the distribution splitter) and \<^verbatim>\<open>payload\<close> (the size estimate of one
  datum), both defined in other files of the package. They are parameters of the model.
\<close>

record environment =
  GOOS :: string
  resize :: "distribution \<Rightarrow> int \<Rightarrow> distribution list"
  payload :: "MetricDatum \<Rightarrow> int"

subsection \<open>Dimensions\<close>

definition MaxDimensions :: nat where
  "MaxDimensions = 10"

text \<open>The loop over the sorted keys, with its \<^verbatim>\<open>break\<close> and its \<^verbatim>\<open>continue\<close>.\<close>

fun appendDimensions :: "(string \<times> string) list \<Rightarrow> string list \<Rightarrow> dimension list \<Rightarrow> dimension list" where
  "appendDimensions mTags [] dimensions = dimensions"
| "appendDimensions mTags (k # keys) dimensions =
     (if length dimensions \<ge> MaxDimensions then dimensions
      else let v = index_string mTags k
           in if v = [] then appendDimensions mTags keys dimensions
              else appendDimensions mTags keys (dimensions @ [Dimension k (index_string mTags k)]))"

definition BuildDimensions :: "(string \<times> string) list \<Rightarrow> dimension list" where
  "BuildDimensions mTags =
     (let dimensions = (case map_of mTags ''host'' of
                          Some host \<Rightarrow> if host \<noteq> [] then [Dimension ''host'' host] else []
                        | None \<Rightarrow> []);
          keys = filter (\<lambda>k. k \<noteq> ''host'') (map fst mTags);
          keys = sort keys
      in appendDimensions mTags keys dimensions)"

text \<open>
  \<open>ProcessRollup\<close>. \<^verbatim>\<open>rawDimensionMap\<close> is filled by assignment, so a later entry of the
  raw list overwrites an earlier one of the same name. \<^verbatim>\<open>extraDimensions\<close> is allocated
  with \<^verbatim>\<open>len(targetDimensions)\<close> nil entries and filled from index 0; \<open>fillExtra\<close> keeps
  the filled part \<^verbatim>\<open>extraDimensions[0:i]\<close>, which is the whole slice exactly when
  \<^verbatim>\<open>i == len(targetDimensions)\<close>, the only case in which the code reads the slice (for a
  shorter \<open>i\<close> the conjunction short-circuits). \<^verbatim>\<open>reflect.DeepEqual\<close> of two non-nil
  slices of pointers to dimensions is equality of the lists of dimensions; the raw
  dimension list that \<open>BuildDimensions\<close> makes is never nil.
\<close>

definition rawDimensionMap :: "dimension list \<Rightarrow> (string \<rightharpoonup> string)" where
  "rawDimensionMap rawDimension =
     foldl (\<lambda>m v. m(dimName v \<mapsto> dimValue v)) Map.empty rawDimension"

fun fillExtra :: "(string \<rightharpoonup> string) \<Rightarrow> string list \<Rightarrow> nat \<Rightarrow> dimension list \<Rightarrow> nat \<times> dimension list" where
  "fillExtra m [] i extraDimensions = (i, extraDimensions)"
| "fillExtra m (targetDimensionKey # ks) i extraDimensions =
     (case m targetDimensionKey of
        None \<Rightarrow> (i, extraDimensions)
      | Some val \<Rightarrow> fillExtra m ks (i + 1) (extraDimensions @ [Dimension targetDimensionKey val]))"

definition rollupStep :: "dimension list \<Rightarrow> dimension list list \<Rightarrow> string list \<Rightarrow> dimension list list" where
  "rollupStep rawDimension fullDimensionsList targetDimensions =
     (case fillExtra (rawDimensionMap rawDimension) targetDimensions 0 [] of
        (i, extraDimensions) \<Rightarrow>
          if i = length targetDimensions \<and> rawDimension \<noteq> extraDimensions
          then fullDimensionsList @ [extraDimensions] else fullDimensionsList)"

definition ProcessRollup :: "CloudWatch \<Rightarrow> dimension list \<Rightarrow> dimension list list" where
  "ProcessRollup c rawDimension =
     foldl (rollupStep rawDimension) [rawDimension] (RollupDimensions c)"

subsection \<open>Characterisations used in the proofs\<close>

text \<open>
  The two parts of the raw dimension list before the cap is applied, and the dimension
  list a rollup rule derives when all its keys are present.
\<close>

definition hostDimension :: "(string \<times> string) list \<Rightarrow> dimension list" where
  "hostDimension mTags =
     (case map_of mTags ''host'' of
        Some host \<Rightarrow> if host \<noteq> [] then [Dimension ''host'' host] else []
      | None \<Rightarrow> [])"

definition otherDimensions :: "(string \<times> string) list \<Rightarrow> dimension list" where
  "otherDimensions mTags =
     map (\<lambda>k. Dimension k (index_string mTags k))
       (filter (\<lambda>k. index_string mTags k \<noteq> [])
          (sort (filter (\<lambda>k. k \<noteq> ''host'') (map fst mTags))))"

definition derivedDimensions :: "dimension list \<Rightarrow> string list \<Rightarrow> dimension list" where
  "derivedDimensions rawDimension targetDimensions =
     map (\<lambda>k. Dimension k (the (rawDimensionMap rawDimension k))) targetDimensions"

subsection \<open>Concrete inputs\<close>

definition exampleCloudWatch :: CloudWatch where
  "exampleCloudWatch =
     \<lparr>Namespace = ''CWAgent'', ForceFlushInterval = 60000000000, MaxDatumsPerCall = 20,
      MaxValuesPerDatum = 150,
      RollupDimensions = [[''az''], [''host'', ''az''], [''ImageId''], [], [''az'', ''ImageId'']],
      metricDecorations = None,
      metricDatumBatch = \<lparr>batchMaxDatumsPerCall = 20, Partition = [], BeginTime = 0,
                          Size = 100, perRequestConstSize = 100\<rparr>,
      datumBatchChan = [], retries = 0\<rparr>"

definition exampleTags :: "(string \<times> string) list" where
  "exampleTags =
     [(''zone'', ''z''), (''k09'', ''9''), (''k02'', ''2''), (''host'', ''h1''), (''k01'', ''1''),
      (''empty'', []), (''k03'', ''3''), (''k04'', ''4''), (''k05'', ''5''), (''k06'', ''6''),
      (''k07'', ''7''), (''k08'', ''8''), (''az'', ''us-east-1a'')]"

subsection \<open>BuildMetricDatum\<close>

text \<open>
  \<^verbatim>\<open>strings.EqualFold(s, "true")\<close>: equality under Unicode simple case folding. No
  character other than the ASCII letters folds to one of \<open>t\<close>, \<open>r\<close>, \<open>u\<close>, \<open>e\<close>, so
  against this literal the test is equality after lowering the ASCII capitals.
\<close>

definition asciiLower :: "char \<Rightarrow> char" where
  "asciiLower ch =
     (case map_of (zip ''ABCDEFGHIJKLMNOPQRSTUVWXYZ'' ''abcdefghijklmnopqrstuvwxyz'') ch of
        Some l \<Rightarrow> l | None \<Rightarrow> ch)"

definition EqualFold_true :: "string \<Rightarrow> bool" where
  "EqualFold_true s = (map asciiLower s = ''true'')"

definition decorateMetricName :: "environment \<Rightarrow> CloudWatch \<Rightarrow> string \<Rightarrow> string \<Rightarrow> string" where
  "decorateMetricName env c category name =
     (let decoratedName = (case metricDecorations c of
                             Some md \<Rightarrow> getRename md category name
                           | None \<Rightarrow> [])
      in if decoratedName = [] then
           (if name = ''value'' then category
            else let separator = (if GOOS env = ''windows'' then '' '' else ''_'')
                 in category @ separator @ name)
         else decoratedName)"

definition decorateMetricUnit :: "CloudWatch \<Rightarrow> string \<Rightarrow> string \<Rightarrow> string" where
  "decorateMetricUnit c category name =
     (case metricDecorations c of Some md \<Rightarrow> getUnit md category name | None \<Rightarrow> [])"

text \<open>
  The type switch: \<open>None\<close> is a \<^verbatim>\<open>continue\<close> (the field is skipped); otherwise the
  values of \<^verbatim>\<open>unit\<close>, \<^verbatim>\<open>value\<close> and \<^verbatim>\<open>distList\<close> after the switch, the ones a case does
  not assign keeping their zero value.
\<close>

fun fieldSwitch :: "environment \<Rightarrow> CloudWatch \<Rightarrow> field_value \<Rightarrow> (string \<times> real \<times> distribution list) option" where
  "fieldSwitch env c (VUint t) = Some ([], float64_of_int (uint t), [])"
| "fieldSwitch env c (VUint8 t) = Some ([], float64_of_int (uint t), [])"
| "fieldSwitch env c (VUint16 t) = Some ([], float64_of_int (uint t), [])"
| "fieldSwitch env c (VUint32 t) = Some ([], float64_of_int (uint t), [])"
| "fieldSwitch env c (VUint64 t) = Some ([], float64_of_int (uint t), [])"
| "fieldSwitch env c (VInt t) = Some ([], float64_of_int (sint t), [])"
| "fieldSwitch env c (VInt8 t) = Some ([], float64_of_int (sint t), [])"
| "fieldSwitch env c (VInt16 t) = Some ([], float64_of_int (sint t), [])"
| "fieldSwitch env c (VInt32 t) = Some ([], float64_of_int (sint t), [])"
| "fieldSwitch env c (VInt64 t) = Some ([], float64_of_int (sint t), [])"
| "fieldSwitch env c (VFloat32 t) = Some ([], t, [])"
| "fieldSwitch env c (VFloat64 t) = Some ([], t, [])"
| "fieldSwitch env c (VBool t) = Some ([], if t then 1 else 0, [])"
| "fieldSwitch env c (VTime t) = Some ([], float64_of_int (Unix t), [])"
| "fieldSwitch env c (VDistribution t) =
     (if distSize t = 0 then None
      else Some (distUnit t, 0, resize env t (MaxValuesPerDatum c)))"
| "fieldSwitch env c (VOther t) = None"

definition scalarDatum :: "string \<Rightarrow> dimension list \<Rightarrow> gotime \<Rightarrow> real \<Rightarrow> string \<Rightarrow> bool \<Rightarrow> MetricDatum" where
  "scalarDatum metricName dimensions time v unit isHighResolution =
     \<lparr>MetricName = metricName, Dimensions = dimensions, Timestamp = time,
      Value = Some v, Values = None, Counts = None, StatisticValues = None,
      Unit = (if unit \<noteq> [] then Some unit else None),
      StorageResolution = (if isHighResolution then Some 1 else None)\<rparr>"

definition distributionDatum :: "string \<Rightarrow> dimension list \<Rightarrow> gotime \<Rightarrow> distribution \<Rightarrow> string \<Rightarrow> bool \<Rightarrow> MetricDatum" where
  "distributionDatum metricName dimensions time dst unit isHighResolution =
     \<lparr>MetricName = metricName, Dimensions = dimensions, Timestamp = time,
      Value = None, Values = Some (distValues dst), Counts = Some (distCounts dst),
      StatisticValues = Some \<lparr>Maximum = distMaximum dst, Minimum = distMinimum dst,
                              SampleCount = distSampleCount dst, Sum = distSum dst\<rparr>,
      Unit = (if unit \<noteq> [] then Some unit else None),
      StorageResolution = (if isHighResolution then Some 1 else None)\<rparr>"

text \<open>The datums of one dimension list (the body of the loop over \<^verbatim>\<open>dimensionsList\<close>).\<close>

definition dimensionsDatums :: "string \<Rightarrow> gotime \<Rightarrow> real \<Rightarrow> distribution list \<Rightarrow> string \<Rightarrow> bool \<Rightarrow> dimension list \<Rightarrow> MetricDatum list" where
  "dimensionsDatums metricName time v distList unit isHighResolution dimensions =
     (if length distList = 0
      then [scalarDatum metricName dimensions time v unit isHighResolution]
      else map (\<lambda>dst. distributionDatum metricName dimensions time dst unit isHighResolution)
             distList)"

text \<open>The datums of one field (the body of the loop over \<^verbatim>\<open>point.Fields()\<close>).\<close>

definition fieldDatums :: "environment \<Rightarrow> CloudWatch \<Rightarrow> metric \<Rightarrow> bool \<Rightarrow> dimension list list \<Rightarrow> string \<times> field_value \<Rightarrow> MetricDatum list" where
  "fieldDatums env c point isHighResolution dimensionsList kv =
     (case fieldSwitch env c (snd kv) of
        None \<Rightarrow> []
      | Some (unit0, v, distList) \<Rightarrow>
          let metricName = decorateMetricName env c (pointName point) (fst kv);
              unit = (if unit0 = [] then decorateMetricUnit c (pointName point) (fst kv)
                      else unit0)
          in concat (map (dimensionsDatums metricName (pointTime point) v distList unit
                            isHighResolution) dimensionsList))"

text \<open>
  \<open>BuildMetricDatum\<close> returns the datums and the point as the call leaves it
  (\<^verbatim>\<open>point.RemoveTag\<close> changes the caller's point). The fields are visited in the order
  of the entry list \<open>pointFields\<close>, which stands for the order \<^verbatim>\<open>range\<close> happens to
  choose.
\<close>

definition BuildMetricDatum :: "environment \<Rightarrow> CloudWatch \<Rightarrow> metric \<Rightarrow> MetricDatum list \<times> metric" where
  "BuildMetricDatum env c point =
     (let isHighResolution = (case map_of (pointTags point) highResolutionTagKey of
                                Some highResolutionValue \<Rightarrow> EqualFold_true highResolutionValue
                              | None \<Rightarrow> False);
          point = (if isHighResolution then RemoveTag highResolutionTagKey point else point);
          rawDimensions = BuildDimensions (pointTags point);
          dimensionsList = ProcessRollup c rawDimensions
      in (concat (map (fieldDatums env c point isHighResolution dimensionsList)
                    (pointFields point)),
          point))"

subsection \<open>The batch and the ingestion loop\<close>

text \<open>
  \<^verbatim>\<open>make([]*cloudwatch.MetricDatum, 0, n)\<close> panics for a negative \<open>n\<close>; \<open>None\<close> is the
  panic (a capacity too large to allocate is not modelled). The clock reading of
  \<^verbatim>\<open>time.Now()\<close> is an argument. The size counter is an integer without bound: the
  estimates of the datums a batch can hold are far from overflowing an \<^verbatim>\<open>int\<close>.
\<close>

definition newMetricDatumBatch :: "gotime \<Rightarrow> int \<Rightarrow> int \<Rightarrow> MetricDatumBatch option" where
  "newMetricDatumBatch now maxDatumsPerCall perRequestConstSize' =
     (if maxDatumsPerCall < 0 then None
      else Some \<lparr>batchMaxDatumsPerCall = maxDatumsPerCall, Partition = [], BeginTime = now,
                 Size = perRequestConstSize', perRequestConstSize = perRequestConstSize'\<rparr>)"

definition clear :: "gotime \<Rightarrow> MetricDatumBatch \<Rightarrow> MetricDatumBatch option" where
  "clear now b =
     (if batchMaxDatumsPerCall b < 0 then None
      else Some (b\<lparr>Partition := [], BeginTime := now, Size := perRequestConstSize b\<rparr>))"

definition isFull :: "MetricDatumBatch \<Rightarrow> bool" where
  "isFull b \<longleftrightarrow>
     int (length (Partition b)) \<ge> batchMaxDatumsPerCall b \<or> Size b \<ge> bottomLinePayloadSizeToPublish"

definition timeToPublish :: "CloudWatch \<Rightarrow> gotime \<Rightarrow> MetricDatumBatch \<Rightarrow> bool" where
  "timeToPublish c now b \<longleftrightarrow>
     length (Partition b) > 0 \<and> now - BeginTime b \<ge> ForceFlushInterval c"

text \<open>
  The part of \<open>startRoutines\<close> that sets the defaults and creates the batch.
  \<^verbatim>\<open>overallConstPerRequestSize\<close> and \<^verbatim>\<open>namespaceOverheads\<close> are constants of another file
  of the package; their sum is the argument \<open>constOverheads\<close>.
\<close>

definition startRoutines :: "gotime \<Rightarrow> int \<Rightarrow> CloudWatch \<Rightarrow> CloudWatch option" where
  "startRoutines now constOverheads c =
     (let c = c\<lparr>datumBatchChan := []\<rparr>;
          c = (if ForceFlushInterval c = 0 then c\<lparr>ForceFlushInterval := 60 * 1000000000\<rparr> else c);
          c = (if MaxDatumsPerCall c = 0 then c\<lparr>MaxDatumsPerCall := defaultMaxDatumsPerCall\<rparr> else c);
          c = (if MaxValuesPerDatum c = 0 then c\<lparr>MaxValuesPerDatum := defaultMaxValuesPerDatum\<rparr> else c);
          perRequestConstSize' = constOverheads + int (length (Namespace c))
      in case newMetricDatumBatch now (MaxDatumsPerCall c) perRequestConstSize' of
           None \<Rightarrow> None
         | Some b \<Rightarrow> Some (c\<lparr>metricDatumBatch := b\<rparr>))"

text \<open>
  The loop \<^verbatim>\<open>for i := 0; i < numberOfPartitions; i++\<close> of \<open>pushMetricDatum\<close>; \<open>clock i\<close>
  is the reading of \<^verbatim>\<open>time.Now()\<close> while datum \<open>i\<close> is handled. A send on the channel
  appends to its history.
\<close>

fun pushDatums :: "environment \<Rightarrow> (nat \<Rightarrow> gotime) \<Rightarrow> MetricDatum list \<Rightarrow> nat \<Rightarrow> CloudWatch \<Rightarrow> CloudWatch option" where
  "pushDatums env clock [] i c = Some c"
| "pushDatums env clock (d # datums) i c =
     (let b = metricDatumBatch c;
          b = b\<lparr>Partition := Partition b @ [d]\<rparr>;
          b = b\<lparr>Size := Size b + payload env d\<rparr>
      in if isFull b then
           (case clear (clock i) b of
              None \<Rightarrow> None
            | Some b' \<Rightarrow>
                pushDatums env clock datums (i + 1)
                  (c\<lparr>datumBatchChan := datumBatchChan c @ [Partition b], metricDatumBatch := b'\<rparr>))
         else pushDatums env clock datums (i + 1) (c\<lparr>metricDatumBatch := b\<rparr>))"

text \<open>
  What the \<^verbatim>\<open>select\<close> of \<open>pushMetricDatum\<close> can receive: a point from \<^verbatim>\<open>metricChan\<close>, a
  tick of the one-second ticker, or the shutdown signal.
\<close>

datatype event = RecvPoint metric "nat \<Rightarrow> gotime" | Tick gotime | Shutdown

fun pushMetricDatum :: "environment \<Rightarrow> event list \<Rightarrow> CloudWatch \<Rightarrow> CloudWatch option" where
  "pushMetricDatum env [] c = Some c"
| "pushMetricDatum env (RecvPoint point clock # evs) c =
     (let datums = fst (BuildMetricDatum env c point)
      in case pushDatums env clock datums 0 c of
           None \<Rightarrow> None
         | Some c' \<Rightarrow> pushMetricDatum env evs c')"
| "pushMetricDatum env (Tick now # evs) c =
     (if timeToPublish c now (metricDatumBatch c) then
        (case clear now (metricDatumBatch c) of
           None \<Rightarrow> None
         | Some b' \<Rightarrow>
             pushMetricDatum env evs
               (c\<lparr>datumBatchChan := datumBatchChan c @ [Partition (metricDatumBatch c)],
                  metricDatumBatch := b'\<rparr>))
      else pushMetricDatum env evs c)"
| "pushMetricDatum env (Shutdown # evs) c = Some c"

subsection \<open>Sending, with backoff\<close>

text \<open>
  The error of a call of \<^verbatim>\<open>PutMetricData\<close>: one that is not an \<^verbatim>\<open>awserr.Error\<close>, or an
  \<^verbatim>\<open>awserr.Error\<close> with its code. The two codes are those of the AWS SDK.
\<close>

datatype send_error = NotAwsError | AwsError string

definition ErrCodeLimitExceededFault :: string where
  "ErrCodeLimitExceededFault = ''LimitExceeded''"

definition ErrCodeInternalServiceFault :: string where
  "ErrCodeInternalServiceFault = ''InternalServiceError''"

text \<open>
  What a worker does besides changing the \<open>CloudWatch\<close> value: the durations it has
  slept, in milliseconds and in order, and the number of calls of \<^verbatim>\<open>PutMetricData\<close>
  it has made.
\<close>

record effects =
  slept :: "int list"
  calls :: nat

text \<open>
  \<^verbatim>\<open>int64(backoffRetryBase * math.Pow(2, float64(c.retries)))\<close>: the power of two and its
  product with 200 are exact in \<^verbatim>\<open>float64\<close>; for a negative counter (which the code never
  produces) the conversion truncates the quotient.
\<close>

definition backoffInMillis :: "int \<Rightarrow> int" where
  "backoffInMillis r =
     (if r \<le> int defaultRetryCount
      then (if 0 \<le> r then backoffRetryBase * 2 ^ nat r else backoffRetryBase div 2 ^ nat (- r))
      else 60 * 1000)"

definition backoffSleep :: "CloudWatch \<times> effects \<Rightarrow> CloudWatch \<times> effects" where
  "backoffSleep st =
     (case st of (c, eff) \<Rightarrow>
        let sleepDuration = backoffInMillis (retries c)
        in (c\<lparr>retries := retries c + 1\<rparr>, eff\<lparr>slept := slept eff @ [sleepDuration]\<rparr>))"

text \<open>
  The loop of \<open>WriteToCloudWatch\<close>. \<open>svc i\<close> is the outcome of the call of
  \<^verbatim>\<open>PutMetricData\<close> in iteration \<open>i\<close> (\<open>None\<close> is success); \<open>err\<close> is the variable
  \<^verbatim>\<open>err\<close>. The result is the state, the effects and the final \<^verbatim>\<open>err\<close>, which is logged when
  it is not nil.
\<close>

function writeLoop :: "(nat \<Rightarrow> send_error option) \<Rightarrow> nat \<Rightarrow> send_error option \<Rightarrow> CloudWatch \<times> effects \<Rightarrow> (CloudWatch \<times> effects) \<times> send_error option" where
  "writeLoop svc i err st =
     (if i < defaultRetryCount then
        (let err = svc i;
             st = (fst st, (snd st)\<lparr>calls := calls (snd st) + 1\<rparr>)
         in case err of
              None \<Rightarrow> ((fst st\<lparr>retries := 0\<rparr>, snd st), err)
            | Some NotAwsError \<Rightarrow> writeLoop svc (i + 1) err (backoffSleep st)
            | Some (AwsError code) \<Rightarrow>
                if code = ErrCodeLimitExceededFault \<or> code = ErrCodeInternalServiceFault
                then writeLoop svc (i + 1) err (backoffSleep st)
                else (backoffSleep st, err))
      else (st, err))"
  by pat_completeness auto
termination
  by (relation "measure (\<lambda>(svc, i, err, st). defaultRetryCount - i)") auto

declare writeLoop.simps [simp del]

definition WriteToCloudWatch :: "(nat \<Rightarrow> send_error option) \<Rightarrow> CloudWatch \<times> effects \<Rightarrow> (CloudWatch \<times> effects) \<times> send_error option" where
  "WriteToCloudWatch svc st = writeLoop svc 0 None st"

subsection \<open>Further characterisations and concrete inputs\<close>

text \<open>Whether the point asks for high resolution (the test at the head of \<open>BuildMetricDatum\<close>).\<close>

definition highResolutionRequested :: "metric \<Rightarrow> bool" where
  "highResolutionRequested point =
     (case map_of (pointTags point) highResolutionTagKey of
        Some highResolutionValue \<Rightarrow> EqualFold_true highResolutionValue
      | None \<Rightarrow> False)"

text \<open>
  The number of datums a field value is to contribute for each dimension list: one for a
  scalar, the number of chunks for a distribution, none for a distribution of size 0 or a
  value of an unsupported type.
\<close>

definition chunkCount :: "environment \<Rightarrow> CloudWatch \<Rightarrow> field_value \<Rightarrow> nat" where
  "chunkCount env c v =
     (case v of
        VDistribution t \<Rightarrow>
          if distSize t = 0 then 0 else length (resize env t (MaxValuesPerDatum c))
      | VOther t \<Rightarrow> 0
      | _ \<Rightarrow> 1)"

text \<open>The errors after which \<open>WriteToCloudWatch\<close> goes on to the next iteration.\<close>

definition retryable :: "send_error \<Rightarrow> bool" where
  "retryable e =
     (case e of
        NotAwsError \<Rightarrow> True
      | AwsError code \<Rightarrow> code = ErrCodeLimitExceededFault \<or> code = ErrCodeInternalServiceFault)"

text \<open>
  Modelled from the spec: the distribution splitter \<^verbatim>\<open>resize\<close>, which is defined in another
  file of the package. Section 4.1 of the specification: each sub-distribution has size at
  most \<open>M\<close>, the (value, count) pairs of the sequence are those of the original, each
  sub-distribution reports the aggregate statistics of the original, size 0 gives the
  empty sequence, and a size of at most \<open>M\<close> gives the original alone. It is used for
  concrete inputs only; the theorems hold for any splitter.
\<close>

definition resizeModel :: "distribution \<Rightarrow> int \<Rightarrow> distribution list" where
  "resizeModel d m =
     (if distSize d = 0 then []
      else if distSize d \<le> m then [d]
      else map (\<lambda>i. d\<lparr>distValues := take (nat m) (drop (i * nat m) (distValues d)),
                       distCounts := take (nat m) (drop (i * nat m) (distCounts d)),
                       distSize := min m (distSize d - int i * m)\<rparr>)
             [0..<nat ((distSize d + m - 1) div m)])"

definition exampleEnvironment :: environment where
  "exampleEnvironment = \<lparr>GOOS = ''linux'', resize = resizeModel, payload = (\<lambda>d. 50000)\<rparr>"

definition examplePoint :: metric where
  "examplePoint =
     \<lparr>pointName = ''cpu'',
      pointTags = [(''host'', ''h1''), (''az'', ''us-east-1a'')],
      pointFields = [(''usage_idle'', VFloat64 42.5), (''usage_user'', VFloat64 7.5)],
      pointTime = 1600000000000000000\<rparr>"

definition exampleDistribution :: distribution where
  "exampleDistribution =
     \<lparr>distMaximum = 3, distMinimum = 1, distSampleCount = 6, distSum = 10, distUnit = ''Seconds'',
      distValues = [1, 2, 3], distCounts = [3, 2, 1], distSize = 3\<rparr>"

definition exampleHighResolutionPoint :: metric where
  "exampleHighResolutionPoint =
     \<lparr>pointName = ''disk'',
      pointTags = [(''host'', ''h1''), (''aws:StorageResolution'', ''True'')],
      pointFields = [(''up'', VBool True), (''seen'', VTime 1600000000999999999),
                     (''latency'', VDistribution exampleDistribution),
                     (''nothing'', VDistribution (exampleDistribution\<lparr>distValues := [], distCounts := [], distSize := 0\<rparr>)),
                     (''label'', VOther ''text'')],
      pointTime = 1600000000000000000\<rparr>"

definition exampleSplitCloudWatch :: CloudWatch where
  "exampleSplitCloudWatch = exampleCloudWatch\<lparr>MaxValuesPerDatum := 2, RollupDimensions := [[]]\<rparr>"

definition exampleReorderedPoint :: metric where
  "exampleReorderedPoint =
     examplePoint\<lparr>pointTags := rev (pointTags examplePoint),
                  pointFields := rev (pointFields examplePoint)\<rparr>"

text \<open>
  The size estimate of a batch that holds the datums \<open>q\<close>: the constant the batch is
  seeded with plus the estimates of its datums. It is the value of the field \<open>Size\<close>
  when the batch is sent (the channel carries the datums only).
\<close>

definition estimatedSize :: "environment \<Rightarrow> CloudWatch \<Rightarrow> MetricDatum list \<Rightarrow> int" where
  "estimatedSize env c q =
     perRequestConstSize (metricDatumBatch c) + sum_list (map (payload env) q)"

text \<open>
  What holds of the batch and of the channel between two events of the ingestion loop,
  for a batch created with the limit \<open>M\<close> and the constant \<open>P\<close>.
\<close>

definition batchInvariant :: "environment \<Rightarrow> int \<Rightarrow> int \<Rightarrow> CloudWatch \<Rightarrow> bool" where
  "batchInvariant env M P c \<longleftrightarrow>
     batchMaxDatumsPerCall (metricDatumBatch c) = M
     \<and> perRequestConstSize (metricDatumBatch c) = P
     \<and> Size (metricDatumBatch c) = P + sum_list (map (payload env) (Partition (metricDatumBatch c)))
     \<and> int (length (Partition (metricDatumBatch c))) < M
     \<and> Size (metricDatumBatch c) < bottomLinePayloadSizeToPublish
     \<and> P < bottomLinePayloadSizeToPublish
     \<and> (Partition (metricDatumBatch c) \<noteq> [] \<longrightarrow>
          P + sum_list (map (payload env) (butlast (Partition (metricDatumBatch c))))
            < bottomLinePayloadSizeToPublish)
     \<and> (\<forall>q\<in>set (datumBatchChan c).
           q \<noteq> [] \<and> int (length q) \<le> M
           \<and> P + sum_list (map (payload env) (butlast q)) < bottomLinePayloadSizeToPublish)"

definition exampleClock :: "nat \<Rightarrow> gotime" where
  "exampleClock i = 1600000000000000000 + int i"

definition exampleStarted :: CloudWatch where
  "exampleStarted =
     exampleCloudWatch\<lparr>metricDatumBatch :=
       \<lparr>batchMaxDatumsPerCall = 20, Partition = [], BeginTime = 1600000000000000000,
        Size = 107, perRequestConstSize = 107\<rparr>\<rparr>"

text \<open>
  One failed attempt that is followed by a backoff: the call is counted, then
  \<open>backoffSleep\<close> runs.
\<close>

definition failedAttempt :: "CloudWatch \<times> effects \<Rightarrow> CloudWatch \<times> effects" where
  "failedAttempt st = backoffSleep (fst st, (snd st)\<lparr>calls := calls (snd st) + 1\<rparr>)"

text \<open>The delays of \<open>k\<close> consecutive backoffs that start with the counter at \<open>r\<close>.\<close>

definition backoffSchedule :: "int \<Rightarrow> nat \<Rightarrow> int list" where
  "backoffSchedule r k = map (\<lambda>j. backoffInMillis (r + int j)) [0..<k]"

definition exampleEffects :: effects where
  "exampleEffects = \<lparr>slept = [], calls = 0\<rparr>"

definition exampleDeniedService :: "nat \<Rightarrow> send_error option" where
  "exampleDeniedService i = Some (AwsError ''AccessDenied'')"

definition exampleThrottledService :: "nat \<Rightarrow> send_error option" where
  "exampleThrottledService i = (if i < 3 then Some (AwsError ''LimitExceeded'') else None)"

definition exampleFailingService :: "nat \<Rightarrow> send_error option" where
  "exampleFailingService i = (if even i then Some NotAwsError else Some (AwsError ''InternalServiceError''))"

section \<open>Properties\<close>

subsection \<open>GetUniqueRollupList\<close>

lemma uniqueScan_suffix:
  "uniqueLists = pre @ us \<Longrightarrow> cnt = length pre \<Longrightarrow>
   uniqueScan x us cnt uniqueLists =
     (if x \<in> set us \<or> us = [] then uniqueLists else uniqueLists @ [x])"
proof (induction us arbitrary: pre cnt uniqueLists)
  case Nil
  then show ?case by simp
next
  case (Cons u us)
  show ?case
  proof (cases "x = u")
    case True
    then show ?thesis by simp
  next
    case False
    show ?thesis
    proof (cases "us = []")
      case True
      with False Cons.prems show ?thesis by simp
    next
      case ne: False
      have "uniqueScan x us (cnt + 1) uniqueLists =
              (if x \<in> set us \<or> us = [] then uniqueLists else uniqueLists @ [x])"
        by (rule Cons.IH [where pre = "pre @ [u]"]) (simp_all add: Cons.prems)
      moreover have "cnt + 1 \<noteq> length uniqueLists"
        using ne Cons.prems by (cases us) simp_all
      ultimately show ?thesis using False ne by simp
    qed
  qed
qed

lemma uniqueScan_whole:
  "uniqueLists \<noteq> [] \<Longrightarrow>
   uniqueScan x uniqueLists 0 uniqueLists =
     (if x \<in> set uniqueLists then uniqueLists else uniqueLists @ [x])"
  using uniqueScan_suffix [of uniqueLists "[]" uniqueLists 0 x] by simp

lemma foldl_uniqueScan:
  "acc \<noteq> [] \<Longrightarrow>
   foldl (\<lambda>uniqueLists inputList. uniqueScan inputList uniqueLists 0 uniqueLists) acc xs =
     acc @ firstSeen acc xs"
proof (induction xs arbitrary: acc)
  case Nil
  then show ?case by simp
next
  case (Cons x xs)
  then show ?case by (simp add: uniqueScan_whole)
qed

lemma firstSeen_set: "set (firstSeen seen xs) = set xs - set seen"
  by (induction xs arbitrary: seen) auto

lemma firstSeen_distinct: "distinct (firstSeen seen xs)"
  by (induction xs arbitrary: seen) (auto simp: firstSeen_set)

lemma GetUniqueRollupList_firstSeen: "GetUniqueRollupList xs = firstSeen [] xs"
proof (cases xs)
  case Nil
  then show ?thesis by (simp add: GetUniqueRollupList_def)
next
  case (Cons x xs')
  have "GetUniqueRollupList xs = [x] @ firstSeen [x] (x # xs')"
    using Cons by (simp add: GetUniqueRollupList_def foldl_uniqueScan)
  then show ?thesis using Cons by simp
qed

lemma remdups_snoc: "remdups (ys @ [x]) = remdups (filter (\<lambda>y. y \<noteq> x) ys) @ [x]"
  by (induction ys) auto

lemma firstSeen_remdups:
  "firstSeen seen xs = rev (remdups (rev (filter (\<lambda>x. x \<notin> set seen) xs)))"
proof (induction xs arbitrary: seen)
  case Nil
  then show ?case by simp
next
  case (Cons x xs)
  show ?case
  proof (cases "x \<in> set seen")
    case True
    then show ?thesis using Cons.IH [of seen] by simp
  next
    case False
    have f: "filter (\<lambda>y. y \<noteq> x) (rev (filter (\<lambda>y. y \<notin> set seen) xs))
           = rev (filter (\<lambda>y. y \<notin> set (seen @ [x])) xs)"
      by (simp add: rev_filter [symmetric] conj_commute)
    have "firstSeen seen (x # xs) = x # firstSeen (seen @ [x]) xs"
      using False by simp
    also have "\<dots> = x # rev (remdups (rev (filter (\<lambda>y. y \<notin> set (seen @ [x])) xs)))"
      by (simp only: Cons.IH [of "seen @ [x]"])
    also have "\<dots> = rev (remdups (rev (filter (\<lambda>y. y \<notin> set seen) xs) @ [x]))"
      by (simp only: remdups_snoc f rev_append rev.simps append.simps)
    also have "\<dots> = rev (remdups (rev (filter (\<lambda>y. y \<notin> set seen) (x # xs))))"
      using False by simp
    finally show ?thesis .
  qed
qed

text \<open>
  Claim C9. For every input list of rollup rules, \<open>GetUniqueRollupList\<close> returns each
  structurally distinct rule of the input exactly once, in first-seen order: the output
  has the same elements as the input, no element twice, and it is the input with every
  later repetition of a rule dropped (\<open>remdups\<close> keeps the last occurrence of each
  element, so on the reversed list it keeps the first).
\<close>

theorem GetUniqueRollupList_unique_first_seen:
  "set (GetUniqueRollupList inputLists) = set inputLists
   \<and> distinct (GetUniqueRollupList inputLists)
   \<and> GetUniqueRollupList inputLists = rev (remdups (rev inputLists))"
  by (simp add: GetUniqueRollupList_firstSeen firstSeen_set firstSeen_distinct
        firstSeen_remdups [of "[]", simplified])

theorem GetUniqueRollupList_unique_first_seen_witness:
  "GetUniqueRollupList [[''host''], [''host'', ''ImageId''], [''host''], [], []]
     = [[''host''], [''host'', ''ImageId''], []]"
  using GetUniqueRollupList_unique_first_seen
          [of "[[''host''], [''host'', ''ImageId''], [''host''], [], []]"]
  by simp

subsection \<open>BuildDimensions\<close>

lemma appendDimensions_take:
  "length dimensions \<le> MaxDimensions \<Longrightarrow>
   appendDimensions mTags keys dimensions =
     take MaxDimensions (dimensions @ map (\<lambda>k. Dimension k (index_string mTags k))
                           (filter (\<lambda>k. index_string mTags k \<noteq> []) keys))"
proof (induction keys arbitrary: dimensions)
  case Nil
  then show ?case by simp
next
  case (Cons k keys)
  show ?case
  proof (cases "length dimensions \<ge> MaxDimensions")
    case True
    with Cons.prems show ?thesis by simp
  next
    case False
    then have "length (dimensions @ [Dimension k (index_string mTags k)]) \<le> MaxDimensions"
      by simp
    from Cons.IH [OF this] Cons.IH [OF Cons.prems] False show ?thesis
      by (simp add: Let_def)
  qed
qed

lemma BuildDimensions_take:
  "BuildDimensions mTags = take 10 (hostDimension mTags @ otherDimensions mTags)"
proof -
  have "length (hostDimension mTags) \<le> MaxDimensions"
    by (simp add: hostDimension_def MaxDimensions_def split: option.splits)
  from appendDimensions_take [OF this] show ?thesis
    by (simp add: BuildDimensions_def hostDimension_def otherDimensions_def MaxDimensions_def)
qed

lemma otherDimensions_names:
  "map dimName (otherDimensions mTags) =
     filter (\<lambda>k. index_string mTags k \<noteq> []) (sort (filter (\<lambda>k. k \<noteq> ''host'') (map fst mTags)))"
  by (simp add: otherDimensions_def comp_def)

lemma otherDimensions_sorted: "sorted (map dimName (otherDimensions mTags))"
  by (simp add: otherDimensions_names sorted_wrt_filter)

lemma otherDimensions_distinct:
  "wf_gomap mTags \<Longrightarrow> distinct (map dimName (otherDimensions mTags))"
  by (simp add: otherDimensions_names wf_gomap_def)

lemma otherDimensions_set:
  assumes "wf_gomap mTags"
  shows "set (otherDimensions mTags) =
     {Dimension k v |k v. (k, v) \<in> set mTags \<and> k \<noteq> ''host'' \<and> v \<noteq> []}"
proof -
  have look: "(k, v) \<in> set mTags \<longleftrightarrow> map_of mTags k = Some v" for k v
    using assms by (simp add: wf_gomap_def)
  have dom: "k \<in> fst ` set mTags" if "map_of mTags k = Some v" for k v
    using that by (metis map_of_SomeD fst_conv image_eqI)
  have "d \<in> set (otherDimensions mTags) \<longleftrightarrow>
          (\<exists>k v. d = Dimension k v \<and> map_of mTags k = Some v \<and> k \<noteq> ''host'' \<and> v \<noteq> [])" for d
  proof
    assume "d \<in> set (otherDimensions mTags)"
    then obtain k where k: "d = Dimension k (index_string mTags k)" "index_string mTags k \<noteq> []"
        "k \<noteq> ''host''" "k \<in> fst ` set mTags"
      by (auto simp: otherDimensions_def)
    then obtain v where "map_of mTags k = Some v"
      by (cases "map_of mTags k") (simp_all add: index_string_def)
    with k show "\<exists>k v. d = Dimension k v \<and> map_of mTags k = Some v \<and> k \<noteq> ''host'' \<and> v \<noteq> []"
      by (auto simp: index_string_def)
  next
    assume "\<exists>k v. d = Dimension k v \<and> map_of mTags k = Some v \<and> k \<noteq> ''host'' \<and> v \<noteq> []"
    then obtain k v where "d = Dimension k v" "map_of mTags k = Some v" "k \<noteq> ''host''" "v \<noteq> []"
      by blast
    then show "d \<in> set (otherDimensions mTags)"
      using dom [of k v] by (auto simp: otherDimensions_def index_string_def image_iff)
  qed
  then show ?thesis unfolding look by blast
qed

text \<open>
  Claim C4. For every tag map, \<open>BuildDimensions\<close> returns at most 10 dimensions; a
  \<open>host\<close> tag with a non-empty value is the dimension at index 0; the result is the
  first 10 entries of the host dimension (when there is one) followed by the tags other
  than \<open>host\<close> that have a non-empty value, in increasing order of their keys (the order
  of \<^verbatim>\<open>sort.Strings\<close>: bytewise lexicographic). So tags with an empty value are left
  out and the host dimension counts toward the cap.
\<close>

theorem BuildDimensions_host_first_sorted_capped:
  "wf_gomap mTags \<Longrightarrow>
   length (BuildDimensions mTags) \<le> 10
   \<and> (\<forall>host. map_of mTags ''host'' = Some host \<and> host \<noteq> [] \<longrightarrow>
         BuildDimensions mTags \<noteq> [] \<and> BuildDimensions mTags ! 0 = Dimension ''host'' host)
   \<and> (\<exists>others.
         BuildDimensions mTags =
           take 10 ((case map_of mTags ''host'' of
                       Some host \<Rightarrow> if host \<noteq> [] then [Dimension ''host'' host] else []
                     | None \<Rightarrow> []) @ others)
         \<and> sorted (map dimName others) \<and> distinct (map dimName others)
         \<and> set others = {Dimension k v |k v. (k, v) \<in> set mTags \<and> k \<noteq> ''host'' \<and> v \<noteq> []})"
proof (intro conjI allI impI)
  show "length (BuildDimensions mTags) \<le> 10"
    by (simp add: BuildDimensions_take)
next
  fix host
  assume "map_of mTags ''host'' = Some host \<and> host \<noteq> []"
  then have "hostDimension mTags = [Dimension ''host'' host]"
    by (simp add: hostDimension_def)
  then show "BuildDimensions mTags \<noteq> []" and "BuildDimensions mTags ! 0 = Dimension ''host'' host"
    by (simp_all add: BuildDimensions_take)
next
  assume wf: "wf_gomap mTags"
  show "\<exists>others.
         BuildDimensions mTags =
           take 10 ((case map_of mTags ''host'' of
                       Some host \<Rightarrow> if host \<noteq> [] then [Dimension ''host'' host] else []
                     | None \<Rightarrow> []) @ others)
         \<and> sorted (map dimName others) \<and> distinct (map dimName others)
         \<and> set others = {Dimension k v |k v. (k, v) \<in> set mTags \<and> k \<noteq> ''host'' \<and> v \<noteq> []}"
  proof (intro exI [of _ "otherDimensions mTags"] conjI)
    show "BuildDimensions mTags =
           take 10 ((case map_of mTags ''host'' of
                       Some host \<Rightarrow> if host \<noteq> [] then [Dimension ''host'' host] else []
                     | None \<Rightarrow> []) @ otherDimensions mTags)"
      using BuildDimensions_take [of mTags] by (simp only: hostDimension_def)
  qed (simp_all add: otherDimensions_sorted otherDimensions_distinct [OF wf]
         otherDimensions_set [OF wf])
qed

theorem BuildDimensions_host_first_sorted_capped_witness:
  "wf_gomap exampleTags
   \<and> BuildDimensions exampleTags =
       [Dimension ''host'' ''h1'', Dimension ''az'' ''us-east-1a'', Dimension ''k01'' ''1'',
        Dimension ''k02'' ''2'', Dimension ''k03'' ''3'', Dimension ''k04'' ''4'',
        Dimension ''k05'' ''5'', Dimension ''k06'' ''6'', Dimension ''k07'' ''7'',
        Dimension ''k08'' ''8'']
   \<and> length (BuildDimensions exampleTags) \<le> 10
   \<and> BuildDimensions exampleTags ! 0 = Dimension ''host'' ''h1''"
proof -
  have wf: "wf_gomap exampleTags"
    by (simp add: wf_gomap_def exampleTags_def)
  have run: "BuildDimensions exampleTags =
       [Dimension ''host'' ''h1'', Dimension ''az'' ''us-east-1a'', Dimension ''k01'' ''1'',
        Dimension ''k02'' ''2'', Dimension ''k03'' ''3'', Dimension ''k04'' ''4'',
        Dimension ''k05'' ''5'', Dimension ''k06'' ''6'', Dimension ''k07'' ''7'',
        Dimension ''k08'' ''8'']"
    by (simp add: BuildDimensions_def exampleTags_def index_string_def MaxDimensions_def)
  have host: "map_of exampleTags ''host'' = Some ''h1'' \<and> ''h1'' \<noteq> []"
    by (simp add: exampleTags_def)
  from BuildDimensions_host_first_sorted_capped [OF wf] host
  have "length (BuildDimensions exampleTags) \<le> 10
        \<and> BuildDimensions exampleTags ! 0 = Dimension ''host'' ''h1''"
    by blast
  with wf run show ?thesis by blast
qed

subsection \<open>ProcessRollup\<close>

lemma rawDimensionMap_foldl:
  "foldl (\<lambda>m v. m(dimName v \<mapsto> dimValue v)) m0 raw k =
     (case map_of (rev (map (\<lambda>d. (dimName d, dimValue d)) raw)) k of
        Some v \<Rightarrow> Some v | None \<Rightarrow> m0 k)"
  by (induction raw arbitrary: m0) (auto simp: map_add_def split: option.splits)

lemma rawDimensionMap_map_of:
  "rawDimensionMap raw = map_of (rev (map (\<lambda>d. (dimName d, dimValue d)) raw))"
  by (rule ext) (simp add: rawDimensionMap_def rawDimensionMap_foldl split: option.splits)

lemma fillExtra_all:
  "\<forall>k\<in>set ks. m k \<noteq> None \<Longrightarrow>
   fillExtra m ks i acc = (i + length ks, acc @ map (\<lambda>k. Dimension k (the (m k))) ks)"
  by (induction ks arbitrary: i acc) auto

lemma fillExtra_break:
  "\<not> (\<forall>k\<in>set ks. m k \<noteq> None) \<Longrightarrow> fst (fillExtra m ks i acc) < i + length ks"
proof (induction ks arbitrary: i acc)
  case Nil
  then show ?case by simp
next
  case (Cons k ks)
  show ?case
  proof (cases "m k")
    case None
    then show ?thesis by simp
  next
    case (Some v)
    with Cons.prems have "\<not> (\<forall>k\<in>set ks. m k \<noteq> None)" by auto
    from Cons.IH [OF this, of "i + 1" "acc @ [Dimension k v]"] Some show ?thesis by simp
  qed
qed

lemma rollupStep_eq:
  "rollupStep raw full rule =
     (if (\<forall>k\<in>set rule. rawDimensionMap raw k \<noteq> None) \<and> derivedDimensions raw rule \<noteq> raw
      then full @ [derivedDimensions raw rule] else full)"
proof (cases "\<forall>k\<in>set rule. rawDimensionMap raw k \<noteq> None")
  case True
  from fillExtra_all [OF this, of 0 "[]"] show ?thesis
    using True by (auto simp: rollupStep_def derivedDimensions_def)
next
  case False
  from fillExtra_break [OF this, of 0 "[]"] show ?thesis
    using False by (auto simp: rollupStep_def split: prod.splits)
qed

lemma foldl_rollupStep:
  "foldl (rollupStep raw) full rules =
     full @ map (derivedDimensions raw)
              (filter (\<lambda>rule. (\<forall>k\<in>set rule. rawDimensionMap raw k \<noteq> None)
                               \<and> derivedDimensions raw rule \<noteq> raw) rules)"
  by (induction rules arbitrary: full) (simp_all add: rollupStep_eq)

lemma ProcessRollup_eq:
  "ProcessRollup c raw =
     raw # map (derivedDimensions raw)
              (filter (\<lambda>rule. (\<forall>k\<in>set rule. rawDimensionMap raw k \<noteq> None)
                               \<and> derivedDimensions raw rule \<noteq> raw) (RollupDimensions c))"
  by (simp add: ProcessRollup_def foldl_rollupStep)

text \<open>
  Claim C5. For every raw dimension list and every configured list of rollup rules,
  \<open>ProcessRollup\<close> returns the raw list first, then, in rule order, one derived list for
  each rule all of whose keys name a raw dimension and whose derived list differs from the
  raw one. The derived list has exactly the rule's keys, in the rule's order, each with
  the value the raw dimensions give it (the value of the last raw dimension of that
  name). A rule with a missing key contributes nothing, and a derived list equal to the
  raw list is left out.
\<close>

theorem ProcessRollup_raw_then_derived:
  "ProcessRollup c rawDimension =
     rawDimension #
       map (\<lambda>rule. map (\<lambda>k. Dimension k (the (rawDimensionMap rawDimension k))) rule)
         (filter (\<lambda>rule. (\<forall>k\<in>set rule. rawDimensionMap rawDimension k \<noteq> None)
                    \<and> map (\<lambda>k. Dimension k (the (rawDimensionMap rawDimension k))) rule
                        \<noteq> rawDimension)
            (RollupDimensions c))
   \<and> rawDimensionMap rawDimension =
       map_of (rev (map (\<lambda>d. (dimName d, dimValue d)) rawDimension))"
  using ProcessRollup_eq [of c rawDimension] rawDimensionMap_map_of [of rawDimension]
  unfolding derivedDimensions_def by blast

theorem ProcessRollup_raw_then_derived_witness:
  "ProcessRollup exampleCloudWatch [Dimension ''host'' ''h1'', Dimension ''az'' ''us-east-1a'']
     = [[Dimension ''host'' ''h1'', Dimension ''az'' ''us-east-1a''],
        [Dimension ''az'' ''us-east-1a''],
        []]"
  using ProcessRollup_raw_then_derived
          [of exampleCloudWatch "[Dimension ''host'' ''h1'', Dimension ''az'' ''us-east-1a'']"]
  by (simp add: exampleCloudWatch_def)

subsection \<open>BuildMetricDatum\<close>

lemmas example_simps =
  BuildMetricDatum_def exampleEnvironment_def exampleCloudWatch_def examplePoint_def
  exampleSplitCloudWatch_def exampleReorderedPoint_def
  highResolutionTagKey_def BuildDimensions_def ProcessRollup_def rollupStep_def rawDimensionMap_def
  index_string_def MaxDimensions_def fieldDatums_def dimensionsDatums_def scalarDatum_def
  distributionDatum_def decorateMetricName_def decorateMetricUnit_def RemoveTag_def
  EqualFold_true_def asciiLower_def exampleHighResolutionPoint_def exampleDistribution_def
  resizeModel_def Unix_def Let_def

lemma BuildMetricDatum_snd:
  "snd (BuildMetricDatum env c point) =
     (if highResolutionRequested point then RemoveTag highResolutionTagKey point else point)"
  by (simp add: BuildMetricDatum_def highResolutionRequested_def Let_def)

lemma BuildMetricDatum_fst:
  "fst (BuildMetricDatum env c point) =
     concat (map (fieldDatums env c (snd (BuildMetricDatum env c point))
                    (highResolutionRequested point)
                    (ProcessRollup c
                       (BuildDimensions (pointTags (snd (BuildMetricDatum env c point))))))
               (pointFields point))"
  by (simp add: BuildMetricDatum_def highResolutionRequested_def Let_def RemoveTag_def)

lemma length_dimensionsDatums:
  "length (dimensionsDatums n t v ds u hr dims) = (if ds = [] then 1 else length ds)"
  by (simp add: dimensionsDatums_def)

lemma length_fieldDatums:
  "length (fieldDatums env c p hr dl kv) =
     length dl * (case fieldSwitch env c (snd kv) of
                    None \<Rightarrow> 0
                  | Some (u, x, ds) \<Rightarrow> if ds = [] then 1 else length ds)"
  by (simp add: fieldDatums_def length_concat comp_def length_dimensionsDatums sum_list_triv
        Let_def split: option.splits prod.splits)

lemma fieldSwitch_chunkCount:
  "(\<forall>t. v = VDistribution t \<and> distSize t \<noteq> 0 \<longrightarrow> resize env t (MaxValuesPerDatum c) \<noteq> []) \<Longrightarrow>
   (case fieldSwitch env c v of None \<Rightarrow> 0 | Some (u, x, ds) \<Rightarrow> if ds = [] then 1 else length ds)
     = chunkCount env c v"
  by (cases v) (simp_all add: chunkCount_def)

lemma fieldDatums_zero_distribution:
  "distSize t = 0 \<Longrightarrow> fieldDatums env c p hr dl (k, VDistribution t) = []"
  by (simp add: fieldDatums_def)

lemma length_BuildMetricDatum:
  assumes "\<forall>k t. (k, VDistribution t) \<in> set (pointFields point) \<and> distSize t \<noteq> 0 \<longrightarrow>
             resize env t (MaxValuesPerDatum c) \<noteq> []"
  shows "length (fst (BuildMetricDatum env c point)) =
           length (ProcessRollup c
                     (BuildDimensions (pointTags (snd (BuildMetricDatum env c point)))))
           * (\<Sum>kv\<leftarrow>pointFields point. chunkCount env c (snd kv))"
proof -
  have "(case fieldSwitch env c (snd kv) of
           None \<Rightarrow> 0 | Some (u, x, ds) \<Rightarrow> if ds = [] then 1 else length ds)
          = chunkCount env c (snd kv)" if "kv \<in> set (pointFields point)" for kv
    using assms that by (intro fieldSwitch_chunkCount) (cases kv, auto)
  then show ?thesis
    by (simp add: BuildMetricDatum_fst length_concat comp_def length_fieldDatums
          sum_list_const_mult cong: map_cong)
qed

text \<open>
  Claim C3. For every point, \<open>BuildMetricDatum\<close> produces, for each field and each
  dimension list, one datum for a scalar field and one datum per chunk for a distribution
  field; a distribution of size 0 (and a value of an unsupported type) contributes none.
  So the number of datums is the sum over the fields of (number of dimension lists)
  \<times> (number of chunks, or 1), which is (number of fields) \<times> (number of dimension lists)
  \<times> \<open>n\<close> when every field has \<open>n\<close> chunks (\<open>n = 1\<close> when all are scalars). The splitter
  is assumed to return at least one chunk for a distribution that is not empty.
\<close>

theorem BuildMetricDatum_count:
  "(\<forall>k t. (k, VDistribution t) \<in> set (pointFields point) \<and> distSize t \<noteq> 0 \<longrightarrow>
       resize env t (MaxValuesPerDatum c) \<noteq> []) \<Longrightarrow>
   dimensionsList =
     ProcessRollup c (BuildDimensions (pointTags (snd (BuildMetricDatum env c point)))) \<Longrightarrow>
   length (fst (BuildMetricDatum env c point)) =
       (\<Sum>kv\<leftarrow>pointFields point. length dimensionsList * chunkCount env c (snd kv))
   \<and> ((\<forall>kv\<in>set (pointFields point). chunkCount env c (snd kv) = n) \<longrightarrow>
        length (fst (BuildMetricDatum env c point)) =
          length (pointFields point) * length dimensionsList * n)
   \<and> (\<forall>k t p hr dl. distSize t = 0 \<longrightarrow>
          chunkCount env c (VDistribution t) = 0
          \<and> fieldDatums env c p hr dl (k, VDistribution t) = [])"
proof (intro conjI impI allI)
  assume h: "\<forall>k t. (k, VDistribution t) \<in> set (pointFields point) \<and> distSize t \<noteq> 0 \<longrightarrow>
       resize env t (MaxValuesPerDatum c) \<noteq> []"
    and d: "dimensionsList =
      ProcessRollup c (BuildDimensions (pointTags (snd (BuildMetricDatum env c point))))"
  show total: "length (fst (BuildMetricDatum env c point)) =
       (\<Sum>kv\<leftarrow>pointFields point. length dimensionsList * chunkCount env c (snd kv))"
    using length_BuildMetricDatum [OF h] by (simp add: d sum_list_const_mult)
  assume "\<forall>kv\<in>set (pointFields point). chunkCount env c (snd kv) = n"
  then have "(\<Sum>kv\<leftarrow>pointFields point. length dimensionsList * chunkCount env c (snd kv))
               = (\<Sum>kv\<leftarrow>pointFields point. length dimensionsList * n)"
    by (intro arg_cong [where f = sum_list] map_cong) simp_all
  then show "length (fst (BuildMetricDatum env c point)) =
          length (pointFields point) * length dimensionsList * n"
    using total by (simp add: sum_list_triv)
next
  fix k :: string and t :: distribution and p :: metric and hr :: bool
    and dl :: "dimension list list"
  assume "distSize t = 0"
  then show "chunkCount env c (VDistribution t) = 0"
    and "fieldDatums env c p hr dl (k, VDistribution t) = []"
    by (simp_all add: chunkCount_def fieldDatums_zero_distribution)
qed

theorem BuildMetricDatum_count_witness:
  "length (resize exampleEnvironment exampleDistribution
             (MaxValuesPerDatum exampleSplitCloudWatch)) = 2
   \<and> ProcessRollup exampleSplitCloudWatch
        (BuildDimensions (pointTags (snd (BuildMetricDatum exampleEnvironment
            exampleSplitCloudWatch exampleHighResolutionPoint))))
       = [[Dimension ''host'' ''h1''], []]
   \<and> map (\<lambda>kv. chunkCount exampleEnvironment exampleSplitCloudWatch (snd kv))
        (pointFields exampleHighResolutionPoint) = [1, 1, 2, 0, 0]
   \<and> length (fst (BuildMetricDatum exampleEnvironment exampleSplitCloudWatch
                     exampleHighResolutionPoint)) = 8
   \<and> (\<Sum>kv\<leftarrow>pointFields exampleHighResolutionPoint.
            length [[Dimension ''host'' ''h1''], []]
            * chunkCount exampleEnvironment exampleSplitCloudWatch (snd kv)) = 8"
proof -
  have h: "\<forall>k t. (k, VDistribution t) \<in> set (pointFields exampleHighResolutionPoint) \<and> distSize t \<noteq> 0 \<longrightarrow>
       resize exampleEnvironment t (MaxValuesPerDatum exampleSplitCloudWatch) \<noteq> []"
    by (simp add: example_simps upt_conv_Cons)
  have d: "ProcessRollup exampleSplitCloudWatch
        (BuildDimensions (pointTags (snd (BuildMetricDatum exampleEnvironment
            exampleSplitCloudWatch exampleHighResolutionPoint))))
       = [[Dimension ''host'' ''h1''], []]"
    by (simp add: example_simps)
  have n: "map (\<lambda>kv. chunkCount exampleEnvironment exampleSplitCloudWatch (snd kv))
        (pointFields exampleHighResolutionPoint) = [1, 1, 2, 0, 0]"
    by (simp add: example_simps chunkCount_def upt_conv_Cons)
  have run: "length (fst (BuildMetricDatum exampleEnvironment exampleSplitCloudWatch
                     exampleHighResolutionPoint)) = 8"
    by (simp add: example_simps upt_conv_Cons)
  have "length (fst (BuildMetricDatum exampleEnvironment exampleSplitCloudWatch
                     exampleHighResolutionPoint)) =
        (\<Sum>kv\<leftarrow>pointFields exampleHighResolutionPoint.
            length [[Dimension ''host'' ''h1''], []]
            * chunkCount exampleEnvironment exampleSplitCloudWatch (snd kv))"
    using BuildMetricDatum_count [OF h d [symmetric]] by blast
  moreover have "length (resize exampleEnvironment exampleDistribution
             (MaxValuesPerDatum exampleSplitCloudWatch)) = 2"
    by (simp add: example_simps upt_conv_Cons)
  ultimately show ?thesis using run d n by simp
qed

lemma float64_of_int_exact:
  assumes "\<bar>i\<bar> < 2 ^ 53"
  shows "float64_of_int i = real_of_int i"
proof -
  have "bitlen \<bar>i\<bar> \<le> 53"
  proof (cases "\<bar>i\<bar> = 0")
    case True
    then show ?thesis by simp
  next
    case False
    then have "0 < \<bar>i\<bar>" by simp
    from bitlen_bounds [OF this] assms
    have "(2::int) ^ nat (bitlen \<bar>i\<bar> - 1) < 2 ^ 53" by linarith
    then have "nat (bitlen \<bar>i\<bar> - 1) < 53"
      by (rule power_less_imp_less_exp [rotated]) simp
    then show ?thesis by linarith
  qed
  then show ?thesis by (simp add: float64_of_int_def Let_def)
qed

lemma ProcessRollup_not_Nil: "ProcessRollup c raw \<noteq> []"
  by (simp add: ProcessRollup_eq)

lemma fieldDatums_scalar:
  "fieldSwitch env c v = Some ([], x, []) \<Longrightarrow>
   fieldDatums env c point hr dimensionsList (k, v) =
     map (\<lambda>dimensions. scalarDatum (decorateMetricName env c (pointName point) k) dimensions
                          (pointTime point) x (decorateMetricUnit c (pointName point) k) hr)
       dimensionsList"
  by (induction dimensionsList) (simp_all add: fieldDatums_def dimensionsDatums_def Let_def)

lemma fieldDatums_in_BuildMetricDatum:
  assumes "(k, v) \<in> set (pointFields point)"
  shows "set (fieldDatums env c (snd (BuildMetricDatum env c point))
                (highResolutionRequested point)
                (ProcessRollup c
                   (BuildDimensions (pointTags (snd (BuildMetricDatum env c point)))))
                (k, v))
         \<subseteq> set (fst (BuildMetricDatum env c point))"
  by (subst BuildMetricDatum_fst) (use assms in auto)

lemma pointName_BuildMetricDatum:
  "pointName (snd (BuildMetricDatum env c point)) = pointName point"
  by (simp add: BuildMetricDatum_snd RemoveTag_def)

lemma scalar_field_datum:
  assumes "(k, v) \<in> set (pointFields point)" and "fieldSwitch env c v = Some ([], x, [])"
  shows "\<exists>d\<in>set (fst (BuildMetricDatum env c point)).
           MetricName d = decorateMetricName env c (pointName point) k \<and> Value d = Some x"
proof -
  let ?q = "snd (BuildMetricDatum env c point)"
  let ?dl = "ProcessRollup c (BuildDimensions (pointTags ?q))"
  obtain dims rest where dl: "?dl = dims # rest"
    using ProcessRollup_not_Nil [of c "BuildDimensions (pointTags ?q)"] by (cases ?dl) auto
  let ?d = "scalarDatum (decorateMetricName env c (pointName ?q) k) dims (pointTime ?q) x
              (decorateMetricUnit c (pointName ?q) k) (highResolutionRequested point)"
  have "?d \<in> set (fieldDatums env c ?q (highResolutionRequested point) ?dl (k, v))"
    by (simp add: fieldDatums_scalar [OF assms(2)] dl)
  then have "?d \<in> set (fst (BuildMetricDatum env c point))"
    using fieldDatums_in_BuildMetricDatum [OF assms(1)] by blast
  moreover have "MetricName ?d = decorateMetricName env c (pointName point) k"
    and "Value ?d = Some x"
    by (simp_all add: scalarDatum_def pointName_BuildMetricDatum)
  ultimately show ?thesis by blast
qed

text \<open>
  Claim C10. A boolean field is not skipped and is no error: for each dimension list it
  gives one datum whose scalar value is exactly 1 when the field is true and 0 when it is
  false. A \<^verbatim>\<open>time.Time\<close> field likewise gives one datum per dimension list, whose value
  is the time's Unix seconds converted to \<^verbatim>\<open>float64\<close> (the seconds themselves when they
  are below \<open>2\<^sup>5\<^sup>3\<close> in magnitude). So a point that has such a field has such a datum
  among the datums \<open>BuildMetricDatum\<close> returns.
\<close>

theorem BuildMetricDatum_bool_and_time_fields:
  "fieldDatums env c point hr dimensionsList (k, VBool b) =
     map (\<lambda>dimensions. scalarDatum (decorateMetricName env c (pointName point) k) dimensions
                          (pointTime point) (if b then 1 else 0)
                          (decorateMetricUnit c (pointName point) k) hr)
       dimensionsList
   \<and> fieldDatums env c point hr dimensionsList (k, VTime t) =
     map (\<lambda>dimensions. scalarDatum (decorateMetricName env c (pointName point) k) dimensions
                          (pointTime point) (float64_of_int (Unix t))
                          (decorateMetricUnit c (pointName point) k) hr)
       dimensionsList
   \<and> (\<bar>Unix t\<bar> < 2 ^ 53 \<longrightarrow> float64_of_int (Unix t) = real_of_int (Unix t))
   \<and> ((k, VBool b) \<in> set (pointFields point) \<longrightarrow>
        (\<exists>d\<in>set (fst (BuildMetricDatum env c point)).
           MetricName d = decorateMetricName env c (pointName point) k
           \<and> Value d = Some (if b then 1 else 0)))
   \<and> ((k, VTime t) \<in> set (pointFields point) \<longrightarrow>
        (\<exists>d\<in>set (fst (BuildMetricDatum env c point)).
           MetricName d = decorateMetricName env c (pointName point) k
           \<and> Value d = Some (float64_of_int (Unix t))))"
proof (intro conjI impI)
  show "fieldDatums env c point hr dimensionsList (k, VBool b) =
     map (\<lambda>dimensions. scalarDatum (decorateMetricName env c (pointName point) k) dimensions
                          (pointTime point) (if b then 1 else 0)
                          (decorateMetricUnit c (pointName point) k) hr)
       dimensionsList"
    by (rule fieldDatums_scalar) simp
  show "fieldDatums env c point hr dimensionsList (k, VTime t) =
     map (\<lambda>dimensions. scalarDatum (decorateMetricName env c (pointName point) k) dimensions
                          (pointTime point) (float64_of_int (Unix t))
                          (decorateMetricUnit c (pointName point) k) hr)
       dimensionsList"
    by (rule fieldDatums_scalar) simp
  show "float64_of_int (Unix t) = real_of_int (Unix t)" if "\<bar>Unix t\<bar> < 2 ^ 53"
    using that by (rule float64_of_int_exact)
  show "\<exists>d\<in>set (fst (BuildMetricDatum env c point)).
           MetricName d = decorateMetricName env c (pointName point) k
           \<and> Value d = Some (if b then 1 else 0)"
    if "(k, VBool b) \<in> set (pointFields point)"
    using that by (rule scalar_field_datum) simp
  show "\<exists>d\<in>set (fst (BuildMetricDatum env c point)).
           MetricName d = decorateMetricName env c (pointName point) k
           \<and> Value d = Some (float64_of_int (Unix t))"
    if "(k, VTime t) \<in> set (pointFields point)"
    using that by (rule scalar_field_datum) simp
qed

theorem BuildMetricDatum_bool_and_time_fields_witness:
  "(''up'', VBool True) \<in> set (pointFields exampleHighResolutionPoint)
   \<and> (''seen'', VTime 1600000000999999999) \<in> set (pointFields exampleHighResolutionPoint)
   \<and> \<bar>Unix 1600000000999999999\<bar> < 2 ^ 53
   \<and> (\<exists>d\<in>set (fst (BuildMetricDatum exampleEnvironment exampleSplitCloudWatch
                        exampleHighResolutionPoint)).
         MetricName d = ''disk_up'' \<and> Value d = Some 1)
   \<and> (\<exists>d\<in>set (fst (BuildMetricDatum exampleEnvironment exampleSplitCloudWatch
                        exampleHighResolutionPoint)).
         MetricName d = ''disk_seen'' \<and> Value d = Some 1600000000)"
proof -
  have up: "(''up'', VBool True) \<in> set (pointFields exampleHighResolutionPoint)"
    and seen: "(''seen'', VTime 1600000000999999999) \<in> set (pointFields exampleHighResolutionPoint)"
    by (simp_all add: exampleHighResolutionPoint_def)
  have small: "\<bar>Unix 1600000000999999999\<bar> < 2 ^ 53"
    by (simp add: Unix_def)
  have names: "decorateMetricName exampleEnvironment exampleSplitCloudWatch
                 (pointName exampleHighResolutionPoint) ''up'' = ''disk_up''"
       "decorateMetricName exampleEnvironment exampleSplitCloudWatch
                 (pointName exampleHighResolutionPoint) ''seen'' = ''disk_seen''"
    by (simp_all add: example_simps)
  have secs: "real_of_int (Unix 1600000000999999999) = 1600000000"
    by (simp add: Unix_def)
  from BuildMetricDatum_bool_and_time_fields
         [of exampleEnvironment exampleSplitCloudWatch exampleHighResolutionPoint _ _
             "''up''" True 1600000000999999999] up
  have "\<exists>d\<in>set (fst (BuildMetricDatum exampleEnvironment exampleSplitCloudWatch
                        exampleHighResolutionPoint)).
         MetricName d = ''disk_up'' \<and> Value d = Some 1"
    unfolding names by simp
  moreover
  from BuildMetricDatum_bool_and_time_fields
         [of exampleEnvironment exampleSplitCloudWatch exampleHighResolutionPoint _ _
             "''seen''" _ 1600000000999999999] seen small
  have "\<exists>d\<in>set (fst (BuildMetricDatum exampleEnvironment exampleSplitCloudWatch
                        exampleHighResolutionPoint)).
         MetricName d = ''disk_seen'' \<and> Value d = Some 1600000000"
    unfolding names secs [symmetric] by metis
  ultimately show ?thesis using up seen small by blast
qed

text \<open>
  Claim C8, as stated, fails: the call removes the reserved high-resolution tag from the
  caller's point when its value is \<open>true\<close> in any letter case.
\<close>

theorem BuildMetricDatum_point_unchanged_counterexample:
  "snd (BuildMetricDatum exampleEnvironment exampleCloudWatch exampleHighResolutionPoint)
     \<noteq> exampleHighResolutionPoint
   \<and> pointTags exampleHighResolutionPoint
       = [(''host'', ''h1''), (''aws:StorageResolution'', ''True'')]
   \<and> pointTags (snd (BuildMetricDatum exampleEnvironment exampleCloudWatch
                        exampleHighResolutionPoint))
       = [(''host'', ''h1'')]"
  by (simp add: example_simps)

text \<open>
  Claim C8, amended. \<open>BuildMetricDatum\<close> leaves the name, the fields and the time of the
  point unchanged. It leaves the tags unchanged too, except that it removes the tag
  \<open>aws:StorageResolution\<close> when that tag is present with a value equal to \<open>true\<close>
  up to letter case. A point without the tag, or with another value for it, is
  unchanged as a whole.
\<close>

theorem BuildMetricDatum_point_after:
  "q = snd (BuildMetricDatum env c point) \<Longrightarrow>
   pointName q = pointName point \<and> pointFields q = pointFields point
   \<and> pointTime q = pointTime point
   \<and> pointTags q =
       (if highResolutionRequested point
        then filter (\<lambda>kv. fst kv \<noteq> highResolutionTagKey) (pointTags point)
        else pointTags point)
   \<and> (\<not> highResolutionRequested point \<longrightarrow> q = point)
   \<and> (highResolutionRequested point \<longleftrightarrow>
        (\<exists>v. map_of (pointTags point) highResolutionTagKey = Some v
             \<and> map asciiLower v = ''true''))"
  by (auto simp: BuildMetricDatum_snd RemoveTag_def highResolutionRequested_def
        EqualFold_true_def split: option.splits)

theorem BuildMetricDatum_point_after_witness:
  "\<not> highResolutionRequested examplePoint
   \<and> snd (BuildMetricDatum exampleEnvironment exampleCloudWatch examplePoint) = examplePoint
   \<and> highResolutionRequested exampleHighResolutionPoint
   \<and> pointFields (snd (BuildMetricDatum exampleEnvironment exampleCloudWatch
                          exampleHighResolutionPoint))
       = pointFields exampleHighResolutionPoint"
proof -
  have a: "\<not> highResolutionRequested examplePoint"
    by (simp add: highResolutionRequested_def example_simps)
  have b: "highResolutionRequested exampleHighResolutionPoint"
    by (simp add: highResolutionRequested_def example_simps)
  from BuildMetricDatum_point_after [OF refl, of exampleEnvironment exampleCloudWatch examplePoint] a
  have "snd (BuildMetricDatum exampleEnvironment exampleCloudWatch examplePoint) = examplePoint"
    by blast
  moreover
  from BuildMetricDatum_point_after
         [OF refl, of exampleEnvironment exampleCloudWatch exampleHighResolutionPoint]
  have "pointFields (snd (BuildMetricDatum exampleEnvironment exampleCloudWatch
                          exampleHighResolutionPoint))
       = pointFields exampleHighResolutionPoint"
    by blast
  ultimately show ?thesis using a b by blast
qed

lemma gomap_perm:
  assumes "wf_gomap xs" "mset ys = mset xs"
  shows "wf_gomap ys" and "map_of ys = map_of xs"
proof -
  have "mset (map fst ys) = mset (map fst xs)" using assms(2) by simp
  then show wf: "wf_gomap ys"
    using assms(1) mset_eq_imp_distinct_iff [of "map fst ys" "map fst xs"]
    by (simp add: wf_gomap_def)
  have "set ys = set xs" using assms(2) by (rule mset_eq_setD)
  then show "map_of ys = map_of xs"
    using wf assms(1) map_of_inject_set [of ys xs] by (simp add: wf_gomap_def)
qed

lemma BuildDimensions_perm:
  assumes "wf_gomap xs" "mset ys = mset xs"
  shows "BuildDimensions ys = BuildDimensions xs"
proof -
  have m: "map_of ys = map_of xs" by (rule gomap_perm(2) [OF assms])
  then have i: "index_string ys = index_string xs"
    by (intro ext) (simp add: index_string_def)
  have "mset (filter (\<lambda>k. k \<noteq> ''host'') (map fst ys))
          = mset (filter (\<lambda>k. k \<noteq> ''host'') (map fst xs))"
    using assms(2) by simp
  then have "sort (filter (\<lambda>k. k \<noteq> ''host'') (map fst ys))
               = sort (filter (\<lambda>k. k \<noteq> ''host'') (map fst xs))"
    by (intro properties_for_sort) simp_all
  moreover have "appendDimensions ys ks ds = appendDimensions xs ks ds" for ks ds
    by (induction ks arbitrary: ds) (simp_all add: i Let_def)
  ultimately show ?thesis by (simp add: BuildDimensions_def m)
qed

lemma fieldDatums_point:
  "pointName p' = pointName p \<Longrightarrow> pointTime p' = pointTime p \<Longrightarrow>
   fieldDatums env c p' hr dl kv = fieldDatums env c p hr dl kv"
  by (simp add: fieldDatums_def split: option.splits)

lemma mset_concat_map_perm:
  assumes "mset ys = mset xs"
  shows "mset (concat (map f ys)) = mset (concat (map f xs))"
proof -
  have "mset (concat (map f zs)) = sum_mset (image_mset (\<lambda>z. mset (f z)) (mset zs))" for zs
    by (induction zs) simp_all
  with assms show ?thesis by simp
qed

lemma BuildMetricDatum_ingredients:
  assumes wf: "wf_gomap (pointTags p)"
    and tags: "mset (pointTags p') = mset (pointTags p)"
    and name: "pointName p' = pointName p" and time: "pointTime p' = pointTime p"
  shows "highResolutionRequested p' = highResolutionRequested p"
    and "BuildDimensions (pointTags (snd (BuildMetricDatum env c p')))
           = BuildDimensions (pointTags (snd (BuildMetricDatum env c p)))"
    and "fieldDatums env c (snd (BuildMetricDatum env c p'))
           = fieldDatums env c (snd (BuildMetricDatum env c p))"
proof -
  show hr: "highResolutionRequested p' = highResolutionRequested p"
    by (simp add: highResolutionRequested_def gomap_perm(2) [OF wf tags])
  let ?q' = "snd (BuildMetricDatum env c p')" and ?q = "snd (BuildMetricDatum env c p)"
  have q: "pointName ?q' = pointName ?q" "pointTime ?q' = pointTime ?q"
    by (simp_all add: BuildMetricDatum_snd hr RemoveTag_def name time)
  have wfq: "wf_gomap (pointTags ?q)"
    using wf by (simp add: BuildMetricDatum_snd RemoveTag_def wf_gomap_def distinct_map_filter)
  have "mset (pointTags ?q') = mset (pointTags ?q)"
    using tags by (simp add: BuildMetricDatum_snd hr RemoveTag_def)
  then show "BuildDimensions (pointTags ?q') = BuildDimensions (pointTags ?q)"
    by (rule BuildDimensions_perm [OF wfq])
  show "fieldDatums env c ?q' = fieldDatums env c ?q"
    by (intro ext fieldDatums_point q)
qed

lemma dimensionsDatums_fun:
  "dimensionsDatums n t x ds u hr =
     (\<lambda>dimensions. if ds = [] then [scalarDatum n dimensions t x u hr]
                    else map (\<lambda>dst. distributionDatum n dimensions t dst u hr) ds)"
  by (rule ext) (simp add: dimensionsDatums_def)

lemma fieldDatums_blocks:
  "fieldSwitch env c (snd kv) = Some (u, x, ds) \<Longrightarrow>
   fieldDatums env c q hr dl kv =
     concat (map (\<lambda>dimensions.
                    if ds = []
                    then [scalarDatum (decorateMetricName env c (pointName q) (fst kv)) dimensions
                            (pointTime q) x
                            (if u = [] then decorateMetricUnit c (pointName q) (fst kv) else u) hr]
                    else map (\<lambda>dst. distributionDatum
                                       (decorateMetricName env c (pointName q) (fst kv)) dimensions
                                       (pointTime q) dst
                                       (if u = [] then decorateMetricUnit c (pointName q) (fst kv)
                                        else u) hr) ds)
               dl)"
  by (simp add: fieldDatums_def Let_def dimensionsDatums_fun)

text \<open>
  Claim C7, as stated, fails: the fields are visited in the order \<^verbatim>\<open>range\<close> chooses for
  the map \<^verbatim>\<open>point.Fields()\<close>, which Go does not fix. Two runs on the same point (same
  name, time, tag map and field map) that visit the two fields in opposite orders return
  different datum lists.
\<close>

theorem BuildMetricDatum_deterministic_counterexample:
  "pointName exampleReorderedPoint = pointName examplePoint
   \<and> pointTime exampleReorderedPoint = pointTime examplePoint
   \<and> wf_gomap (pointTags examplePoint) \<and> wf_gomap (pointFields examplePoint)
   \<and> mset (pointTags exampleReorderedPoint) = mset (pointTags examplePoint)
   \<and> mset (pointFields exampleReorderedPoint) = mset (pointFields examplePoint)
   \<and> fst (BuildMetricDatum exampleEnvironment exampleCloudWatch exampleReorderedPoint)
       \<noteq> fst (BuildMetricDatum exampleEnvironment exampleCloudWatch examplePoint)"
  by (simp add: example_simps wf_gomap_def)

text \<open>
  Claim C7, amended. For a given visiting order of the fields, the datum list is
  determined: it is the concatenation, field by field in visiting order, of the datums
  of each field, and the datums of a field are, dimension list by dimension list in the
  order of \<open>ProcessRollup\<close>, the scalar datum or the datums of the chunks in the order
  of the splitter. Two runs on the same point, whatever the orders in which they visit
  the tag map and the field map, return the same datums with the same multiplicities
  (the lists are permutations of each other), and the same list when they visit the
  fields in the same order.
\<close>

theorem BuildMetricDatum_deterministic_up_to_field_order:
  "wf_gomap (pointTags p) \<Longrightarrow>
   mset (pointTags p') = mset (pointTags p) \<Longrightarrow>
   mset (pointFields p') = mset (pointFields p) \<Longrightarrow>
   pointName p' = pointName p \<Longrightarrow> pointTime p' = pointTime p \<Longrightarrow>
   mset (fst (BuildMetricDatum env c p')) = mset (fst (BuildMetricDatum env c p))
   \<and> (pointFields p' = pointFields p \<longrightarrow>
        fst (BuildMetricDatum env c p') = fst (BuildMetricDatum env c p))
   \<and> fst (BuildMetricDatum env c p) =
       concat (map (fieldDatums env c (snd (BuildMetricDatum env c p))
                      (highResolutionRequested p)
                      (ProcessRollup c
                         (BuildDimensions (pointTags (snd (BuildMetricDatum env c p))))))
                 (pointFields p))
   \<and> (\<forall>kv u x ds q hr dl. fieldSwitch env c (snd kv) = Some (u, x, ds) \<longrightarrow>
        fieldDatums env c q hr dl kv =
          concat (map (\<lambda>dimensions.
                    if ds = []
                    then [scalarDatum (decorateMetricName env c (pointName q) (fst kv)) dimensions
                            (pointTime q) x
                            (if u = [] then decorateMetricUnit c (pointName q) (fst kv) else u) hr]
                    else map (\<lambda>dst. distributionDatum
                                       (decorateMetricName env c (pointName q) (fst kv)) dimensions
                                       (pointTime q) dst
                                       (if u = [] then decorateMetricUnit c (pointName q) (fst kv)
                                        else u) hr) ds)
               dl))"
proof (intro conjI impI allI)
  assume wf: "wf_gomap (pointTags p)"
    and tags: "mset (pointTags p') = mset (pointTags p)"
    and fields: "mset (pointFields p') = mset (pointFields p)"
    and name: "pointName p' = pointName p" and time: "pointTime p' = pointTime p"
  note ing = BuildMetricDatum_ingredients [OF wf tags name time]
  show "mset (fst (BuildMetricDatum env c p')) = mset (fst (BuildMetricDatum env c p))"
    by (simp only: BuildMetricDatum_fst [of env c p'] BuildMetricDatum_fst [of env c p] ing
          mset_concat_map_perm [OF fields])
  show "fst (BuildMetricDatum env c p') = fst (BuildMetricDatum env c p)"
    if "pointFields p' = pointFields p"
    by (simp only: BuildMetricDatum_fst [of env c p'] BuildMetricDatum_fst [of env c p] ing that)
  show "fst (BuildMetricDatum env c p) =
       concat (map (fieldDatums env c (snd (BuildMetricDatum env c p))
                      (highResolutionRequested p)
                      (ProcessRollup c
                         (BuildDimensions (pointTags (snd (BuildMetricDatum env c p))))))
                 (pointFields p))"
    by (rule BuildMetricDatum_fst)
next
  fix kv :: "string \<times> field_value" and u x ds and q :: metric and hr dl
  assume "fieldSwitch env c (snd kv) = Some (u, x, ds)"
  then show "fieldDatums env c q hr dl kv =
          concat (map (\<lambda>dimensions.
                    if ds = []
                    then [scalarDatum (decorateMetricName env c (pointName q) (fst kv)) dimensions
                            (pointTime q) x
                            (if u = [] then decorateMetricUnit c (pointName q) (fst kv) else u) hr]
                    else map (\<lambda>dst. distributionDatum
                                       (decorateMetricName env c (pointName q) (fst kv)) dimensions
                                       (pointTime q) dst
                                       (if u = [] then decorateMetricUnit c (pointName q) (fst kv)
                                        else u) hr) ds)
               dl)"
    by (rule fieldDatums_blocks)
qed

theorem BuildMetricDatum_deterministic_up_to_field_order_witness:
  "wf_gomap (pointTags examplePoint)
   \<and> mset (pointTags exampleReorderedPoint) = mset (pointTags examplePoint)
   \<and> mset (pointFields exampleReorderedPoint) = mset (pointFields examplePoint)
   \<and> pointName exampleReorderedPoint = pointName examplePoint
   \<and> pointTime exampleReorderedPoint = pointTime examplePoint
   \<and> mset (fst (BuildMetricDatum exampleEnvironment exampleCloudWatch exampleReorderedPoint))
       = mset (fst (BuildMetricDatum exampleEnvironment exampleCloudWatch examplePoint))
   \<and> length (fst (BuildMetricDatum exampleEnvironment exampleCloudWatch examplePoint)) = 6"
proof -
  have wf: "wf_gomap (pointTags examplePoint)"
    by (simp add: wf_gomap_def examplePoint_def)
  have tags: "mset (pointTags exampleReorderedPoint) = mset (pointTags examplePoint)"
    and fields: "mset (pointFields exampleReorderedPoint) = mset (pointFields examplePoint)"
    and name: "pointName exampleReorderedPoint = pointName examplePoint"
    and time: "pointTime exampleReorderedPoint = pointTime examplePoint"
    by (simp_all add: exampleReorderedPoint_def)
  have len: "length (fst (BuildMetricDatum exampleEnvironment exampleCloudWatch examplePoint)) = 6"
    by (simp add: example_simps)
  from BuildMetricDatum_deterministic_up_to_field_order
         [OF wf tags fields name time, of exampleEnvironment exampleCloudWatch]
  have "mset (fst (BuildMetricDatum exampleEnvironment exampleCloudWatch exampleReorderedPoint))
       = mset (fst (BuildMetricDatum exampleEnvironment exampleCloudWatch examplePoint))"
    by blast
  with wf tags fields name time len show ?thesis by blast
qed

subsection \<open>The batch accumulator\<close>

lemma startRoutines_Some:
  assumes "startRoutines now constOverheads c0 = Some c"
  shows "MaxDatumsPerCall c = (if MaxDatumsPerCall c0 = 0 then 20 else MaxDatumsPerCall c0)"
    and "1 \<le> MaxDatumsPerCall c"
    and "datumBatchChan c = []"
    and "metricDatumBatch c =
           \<lparr>batchMaxDatumsPerCall = MaxDatumsPerCall c, Partition = [], BeginTime = now,
            Size = constOverheads + int (length (Namespace c0)),
            perRequestConstSize = constOverheads + int (length (Namespace c0))\<rparr>"
  using assms
  by (auto simp: startRoutines_def newMetricDatumBatch_def Let_def defaultMaxDatumsPerCall_def
        split: if_splits)

lemma startRoutines_invariant:
  assumes "startRoutines now constOverheads c0 = Some c"
    and "constOverheads + int (length (Namespace c0)) < bottomLinePayloadSizeToPublish"
  shows "batchInvariant env (MaxDatumsPerCall c) (constOverheads + int (length (Namespace c0))) c"
  using startRoutines_Some [OF assms(1)] assms(2) by (simp add: batchInvariant_def)

lemma pushDatums_invariant:
  "batchInvariant env M P c \<Longrightarrow>
   \<exists>c'. pushDatums env clock datums i c = Some c' \<and> batchInvariant env M P c'
        \<and> MaxDatumsPerCall c' = MaxDatumsPerCall c"
proof (induction datums arbitrary: i c)
  case Nil
  then show ?case by simp
next
  case (Cons d datums)
  let ?old = "metricDatumBatch c"
  let ?b = "?old\<lparr>Partition := Partition ?old @ [d], Size := Size ?old + payload env d\<rparr>"
  from Cons.prems have inv:
    "batchMaxDatumsPerCall ?old = M" "perRequestConstSize ?old = P"
    "Size ?old = P + sum_list (map (payload env) (Partition ?old))"
    "int (length (Partition ?old)) < M" "Size ?old < bottomLinePayloadSizeToPublish"
    "P < bottomLinePayloadSizeToPublish"
    "Partition ?old \<noteq> [] \<longrightarrow>
       P + sum_list (map (payload env) (butlast (Partition ?old))) < bottomLinePayloadSizeToPublish"
    "\<forall>q\<in>set (datumBatchChan c).
           q \<noteq> [] \<and> int (length q) \<le> M
           \<and> P + sum_list (map (payload env) (butlast q)) < bottomLinePayloadSizeToPublish"
    by (simp_all add: batchInvariant_def)
  show ?case
  proof (cases "isFull ?b")
    case True
    let ?c1 = "c\<lparr>datumBatchChan := datumBatchChan c @ [Partition ?b],
                  metricDatumBatch := ?b\<lparr>Partition := [], BeginTime := clock i,
                                          Size := perRequestConstSize ?b\<rparr>\<rparr>"
    have cl: "clear (clock i) ?b
                = Some (?b\<lparr>Partition := [], BeginTime := clock i, Size := perRequestConstSize ?b\<rparr>)"
      using inv(1,4) by (simp add: clear_def)
    have "batchInvariant env M P ?c1"
      using inv by (simp add: batchInvariant_def)
    from Cons.IH [OF this, of "i + 1"] obtain c' where
      "pushDatums env clock datums (i + 1) ?c1 = Some c'" "batchInvariant env M P c'"
      "MaxDatumsPerCall c' = MaxDatumsPerCall ?c1"
      by blast
    then show ?thesis using True cl by (simp add: Let_def)
  next
    case False
    let ?c1 = "c\<lparr>metricDatumBatch := ?b\<rparr>"
    have "batchInvariant env M P ?c1"
      using inv False by (simp add: batchInvariant_def isFull_def)
    from Cons.IH [OF this, of "i + 1"] obtain c' where
      "pushDatums env clock datums (i + 1) ?c1 = Some c'" "batchInvariant env M P c'"
      "MaxDatumsPerCall c' = MaxDatumsPerCall ?c1"
      by blast
    then show ?thesis using False by (simp add: Let_def)
  qed
qed

lemma pushMetricDatum_invariant:
  "batchInvariant env M P c \<Longrightarrow>
   \<exists>c'. pushMetricDatum env evs c = Some c' \<and> batchInvariant env M P c'
        \<and> MaxDatumsPerCall c' = MaxDatumsPerCall c"
proof (induction evs arbitrary: c)
  case Nil
  then show ?case by simp
next
  case (Cons ev evs)
  show ?case
  proof (cases ev)
    case (RecvPoint point clock)
    from pushDatums_invariant [OF Cons.prems, of clock "fst (BuildMetricDatum env c point)" 0]
    obtain c1 where c1: "pushDatums env clock (fst (BuildMetricDatum env c point)) 0 c = Some c1"
      "batchInvariant env M P c1" "MaxDatumsPerCall c1 = MaxDatumsPerCall c"
      by blast
    from Cons.IH [OF c1(2)] c1(1,3) RecvPoint show ?thesis by (simp add: Let_def)
  next
    case (Tick now)
    show ?thesis
    proof (cases "timeToPublish c now (metricDatumBatch c)")
      case True
      let ?b = "metricDatumBatch c"
      let ?c1 = "c\<lparr>datumBatchChan := datumBatchChan c @ [Partition ?b],
                    metricDatumBatch := ?b\<lparr>Partition := [], BeginTime := now,
                                            Size := perRequestConstSize ?b\<rparr>\<rparr>"
      from Cons.prems have inv:
        "batchMaxDatumsPerCall ?b = M" "perRequestConstSize ?b = P"
        "Size ?b = P + sum_list (map (payload env) (Partition ?b))"
        "int (length (Partition ?b)) < M" "Size ?b < bottomLinePayloadSizeToPublish"
        "P < bottomLinePayloadSizeToPublish"
        "Partition ?b \<noteq> [] \<longrightarrow>
           P + sum_list (map (payload env) (butlast (Partition ?b))) < bottomLinePayloadSizeToPublish"
        "\<forall>q\<in>set (datumBatchChan c).
           q \<noteq> [] \<and> int (length q) \<le> M
           \<and> P + sum_list (map (payload env) (butlast q)) < bottomLinePayloadSizeToPublish"
        by (simp_all add: batchInvariant_def)
      have ne: "Partition ?b \<noteq> []" using True by (simp add: timeToPublish_def)
      have cl: "clear now ?b
                  = Some (?b\<lparr>Partition := [], BeginTime := now, Size := perRequestConstSize ?b\<rparr>)"
        using inv(1,4) by (simp add: clear_def)
      have "batchInvariant env M P ?c1"
        using inv ne by (simp add: batchInvariant_def)
      from Cons.IH [OF this] True cl Tick show ?thesis by simp
    next
      case False
      with Cons.IH [OF Cons.prems] Tick show ?thesis by simp
    qed
  next
    case Shutdown
    with Cons.prems show ?thesis by simp
  qed
qed

lemmas batch_simps =
  exampleStarted_def exampleClock_def isFull_def clear_def timeToPublish_def estimatedSize_def
  bottomLinePayloadSizeToPublish_def startRoutines_def newMetricDatumBatch_def
  defaultMaxDatumsPerCall_def defaultMaxValuesPerDatum_def

text \<open>
  Claim C1, as stated, fails for the size: the accumulator tests \<open>isFull\<close> after it has
  appended the datum and added its estimate, so a batch that is sent because of its size
  has an estimate at or above the ceiling. With a per-request constant of 107 and six
  datums estimated at 50000 each, the batch sent holds four datums and has the estimate
  200107.
\<close>

theorem flushed_batch_size_counterexample:
  "startRoutines 1600000000000000000 100 exampleCloudWatch = Some exampleStarted
   \<and> map_option
        (\<lambda>c'. map (\<lambda>q. (length q, estimatedSize exampleEnvironment c' q)) (datumBatchChan c'))
        (pushMetricDatum exampleEnvironment [RecvPoint examplePoint exampleClock] exampleStarted)
       = Some [(4, 200107)]
   \<and> \<not> 200107 \<le> bottomLinePayloadSizeToPublish"
  by (simp add: example_simps batch_simps)

text \<open>
  Claim C1, amended. After \<open>startRoutines\<close> (which makes the limit
  \<open>MaxDatumsPerCall\<close> at least 1) with a per-request constant below the ceiling, the
  ingestion loop handles every sequence of events without a panic, and every batch it
  has placed on the channel holds at least one and at most \<open>MaxDatumsPerCall\<close> datums,
  and its size estimate without its last datum is below the ceiling: the size estimate
  of a batch sent exceeds the ceiling by less than the estimate of its last datum.
\<close>

theorem pushMetricDatum_flushed_batches:
  "startRoutines now constOverheads c0 = Some c \<Longrightarrow>
   constOverheads + int (length (Namespace c0)) < bottomLinePayloadSizeToPublish \<Longrightarrow>
   \<exists>c'. pushMetricDatum env evs c = Some c'
        \<and> MaxDatumsPerCall c' = MaxDatumsPerCall c \<and> 1 \<le> MaxDatumsPerCall c
        \<and> (\<forall>q\<in>set (datumBatchChan c').
              1 \<le> length q \<and> int (length q) \<le> MaxDatumsPerCall c'
              \<and> estimatedSize env c' (butlast q) < bottomLinePayloadSizeToPublish)"
proof -
  assume start: "startRoutines now constOverheads c0 = Some c"
    and small: "constOverheads + int (length (Namespace c0)) < bottomLinePayloadSizeToPublish"
  let ?P = "constOverheads + int (length (Namespace c0))"
  from pushMetricDatum_invariant [OF startRoutines_invariant [OF start small], of env evs]
  obtain c' where run: "pushMetricDatum env evs c = Some c'"
    and inv: "batchInvariant env (MaxDatumsPerCall c) ?P c'"
    and same: "MaxDatumsPerCall c' = MaxDatumsPerCall c"
    by blast
  have "1 \<le> length q \<and> int (length q) \<le> MaxDatumsPerCall c'
        \<and> estimatedSize env c' (butlast q) < bottomLinePayloadSizeToPublish"
    if "q \<in> set (datumBatchChan c')" for q
  proof -
    from inv that have "q \<noteq> []" "int (length q) \<le> MaxDatumsPerCall c"
      "?P + sum_list (map (payload env) (butlast q)) < bottomLinePayloadSizeToPublish"
      "perRequestConstSize (metricDatumBatch c') = ?P"
      by (simp_all add: batchInvariant_def)
    then show ?thesis
      by (cases q) (simp_all add: same estimatedSize_def)
  qed
  with run same startRoutines_Some(2) [OF start] show ?thesis by blast
qed

theorem pushMetricDatum_flushed_batches_witness:
  "startRoutines 1600000000000000000 100 exampleCloudWatch = Some exampleStarted
   \<and> 100 + int (length (Namespace exampleCloudWatch)) < bottomLinePayloadSizeToPublish
   \<and> map_option (\<lambda>c'. map length (datumBatchChan c'))
        (pushMetricDatum exampleEnvironment
           [RecvPoint examplePoint exampleClock, Tick 1700000000000000000] exampleStarted)
       = Some [4, 2]
   \<and> (\<exists>c'. pushMetricDatum exampleEnvironment
               [RecvPoint examplePoint exampleClock, Tick 1700000000000000000] exampleStarted
             = Some c'
           \<and> (\<forall>q\<in>set (datumBatchChan c').
                 1 \<le> length q \<and> int (length q) \<le> MaxDatumsPerCall c'
                 \<and> estimatedSize exampleEnvironment c' (butlast q)
                     < bottomLinePayloadSizeToPublish))"
proof -
  have start: "startRoutines 1600000000000000000 100 exampleCloudWatch = Some exampleStarted"
    by (simp add: example_simps batch_simps)
  have small: "100 + int (length (Namespace exampleCloudWatch)) < bottomLinePayloadSizeToPublish"
    by (simp add: example_simps batch_simps)
  have run: "map_option (\<lambda>c'. map length (datumBatchChan c'))
        (pushMetricDatum exampleEnvironment
           [RecvPoint examplePoint exampleClock, Tick 1700000000000000000] exampleStarted)
       = Some [4, 2]"
    by (simp add: example_simps batch_simps)
  from pushMetricDatum_flushed_batches [OF start small, of exampleEnvironment
         "[RecvPoint examplePoint exampleClock, Tick 1700000000000000000]"]
  have "\<exists>c'. pushMetricDatum exampleEnvironment
               [RecvPoint examplePoint exampleClock, Tick 1700000000000000000] exampleStarted
             = Some c'
           \<and> (\<forall>q\<in>set (datumBatchChan c').
                 1 \<le> length q \<and> int (length q) \<le> MaxDatumsPerCall c'
                 \<and> estimatedSize exampleEnvironment c' (butlast q)
                     < bottomLinePayloadSizeToPublish)"
    by blast
  with start small run show ?thesis by blast
qed

subsection \<open>Sending with backoff\<close>

lemma failedAttempt_eq:
  "failedAttempt (c, eff) =
     (c\<lparr>retries := retries c + 1\<rparr>,
      eff\<lparr>slept := slept eff @ [backoffInMillis (retries c)], calls := calls eff + 1\<rparr>)"
  by (simp add: failedAttempt_def backoffSleep_def)

lemma failedAttempt_funpow:
  "(failedAttempt ^^ k) (c, eff) =
     (c\<lparr>retries := retries c + int k\<rparr>,
      eff\<lparr>slept := slept eff @ backoffSchedule (retries c) k, calls := calls eff + k\<rparr>)"
proof (induction k)
  case 0
  show ?case by (simp add: backoffSchedule_def)
next
  case (Suc k)
  then show ?case
    by (simp add: failedAttempt_eq backoffSchedule_def add.commute add.left_commute)
qed

lemma writeLoop_retryable:
  "i < defaultRetryCount \<Longrightarrow> svc i = Some e \<Longrightarrow> retryable e \<Longrightarrow>
   writeLoop svc i err st = writeLoop svc (i + 1) (Some e) (failedAttempt st)"
  by (subst writeLoop.simps)
     (auto simp: retryable_def failedAttempt_def Let_def split: send_error.splits)

lemma writeLoop_success:
  "i < defaultRetryCount \<Longrightarrow> svc i = None \<Longrightarrow>
   writeLoop svc i err st =
     ((fst st\<lparr>retries := 0\<rparr>, (snd st)\<lparr>calls := calls (snd st) + 1\<rparr>), None)"
  by (subst writeLoop.simps) (simp add: Let_def)

lemma writeLoop_other:
  "i < defaultRetryCount \<Longrightarrow> svc i = Some e \<Longrightarrow> \<not> retryable e \<Longrightarrow>
   writeLoop svc i err st = (failedAttempt st, Some e)"
  by (subst writeLoop.simps)
     (auto simp: retryable_def failedAttempt_def Let_def split: send_error.splits)

lemma writeLoop_exhausted:
  "\<not> i < defaultRetryCount \<Longrightarrow> writeLoop svc i err st = (st, err)"
  by (subst writeLoop.simps) simp

lemma writeLoop_retries:
  "i + k \<le> defaultRetryCount \<Longrightarrow>
   \<forall>j. i \<le> j \<and> j < i + k \<longrightarrow> (\<exists>e. svc j = Some e \<and> retryable e) \<Longrightarrow>
   writeLoop svc i err st =
     writeLoop svc (i + k) (if k = 0 then err else svc (i + k - 1)) ((failedAttempt ^^ k) st)"
proof (induction k arbitrary: i err st)
  case 0
  show ?case by simp
next
  case (Suc k)
  from Suc.prems(2) [rule_format, of i] obtain e where e: "svc i = Some e" "retryable e"
    by auto
  have i: "i < defaultRetryCount" using Suc.prems(1) by simp
  have "writeLoop svc i err st = writeLoop svc (i + 1) (Some e) (failedAttempt st)"
    using i e by (rule writeLoop_retryable [of i svc e err st])
  also have "\<dots> = writeLoop svc (i + 1 + k) (if k = 0 then Some e else svc (i + 1 + k - 1))
                     ((failedAttempt ^^ k) (failedAttempt st))"
    using Suc.prems by (intro Suc.IH) auto
  also have "\<dots> = writeLoop svc (i + Suc k) (if Suc k = 0 then err else svc (i + Suc k - 1))
                     ((failedAttempt ^^ Suc k) st)"
    using e(1) by (simp add: funpow_swap1)
  finally show ?case .
qed

lemma WriteToCloudWatch_retries:
  assumes "n \<le> defaultRetryCount" and "\<forall>j<n. \<exists>e. svc j = Some e \<and> retryable e"
  shows "WriteToCloudWatch svc st =
           writeLoop svc n (if n = 0 then None else svc (n - 1)) ((failedAttempt ^^ n) st)"
proof -
  have "writeLoop svc 0 None st =
          writeLoop svc (0 + n) (if n = 0 then None else svc (0 + n - 1))
            ((failedAttempt ^^ n) st)"
    by (rule writeLoop_retries) (use assms in simp_all)
  then show ?thesis
    by (simp only: WriteToCloudWatch_def add_0)
qed

lemma writeLoop_success_resets:
  "i < defaultRetryCount \<Longrightarrow> snd (writeLoop svc i err st) = None \<Longrightarrow>
   retries (fst (fst (writeLoop svc i err st))) = 0"
proof (induction "defaultRetryCount - i" arbitrary: i err st)
  case 0
  then show ?case by simp
next
  case (Suc m)
  show ?case
  proof (cases "svc i")
    case None
    with Suc.prems show ?thesis by (simp add: writeLoop_success)
  next
    case (Some e)
    show ?thesis
    proof (cases "retryable e")
      case False
      with Some Suc.prems show ?thesis by (simp add: writeLoop_other)
    next
      case True
      have step: "writeLoop svc i err st = writeLoop svc (i + 1) (Some e) (failedAttempt st)"
        using Suc.prems(1) Some True by (rule writeLoop_retryable [of i svc e err st])
      show ?thesis
      proof (cases "i + 1 < defaultRetryCount")
        case True
        have "m = defaultRetryCount - (i + 1)" using Suc.hyps(2) by simp
        from Suc.hyps(1) [OF this True] Suc.prems(2) show ?thesis
          by (simp add: step)
      next
        case False
        with Suc.prems(2) show ?thesis
          by (simp add: step writeLoop_exhausted)
      qed
    qed
  qed
qed

lemmas retry_simps =
  WriteToCloudWatch_def writeLoop.simps backoffSleep_def backoffInMillis_def backoffRetryBase_def
  defaultRetryCount_def ErrCodeLimitExceededFault_def ErrCodeInternalServiceFault_def
  exampleEffects_def exampleDeniedService_def exampleThrottledService_def
  exampleFailingService_def backoffSchedule_def Let_def

text \<open>
  Claim C2, as stated, fails for an error whose code is neither the throttling code nor
  the internal-service-fault code: the \<^verbatim>\<open>default\<close> branch of the switch sleeps the backoff
  and then leaves the loop, so the send is not retried. With a service that answers every
  call with \<open>AccessDenied\<close>, one call is made, one backoff of 200 ms is slept, and the
  error is logged.
\<close>

theorem WriteToCloudWatch_retries_every_error_counterexample:
  "exampleDeniedService 1 = Some (AwsError ''AccessDenied'')
   \<and> WriteToCloudWatch exampleDeniedService (exampleCloudWatch, exampleEffects)
       = ((exampleCloudWatch\<lparr>retries := 1\<rparr>, \<lparr>slept = [200], calls = 1\<rparr>),
          Some (AwsError ''AccessDenied''))"
  by (simp add: retry_simps exampleCloudWatch_def)

text \<open>
  Claim C2, amended. A failed send is retried, after a backoff, when its error cannot be
  cast to \<^verbatim>\<open>awserr.Error\<close> or has the code \<open>LimitExceeded\<close> or \<open>InternalServiceError\<close>:
  if every send fails in one of these ways, exactly 5 sends are made, each followed by a
  backoff, and the last error is returned to be logged. A send that fails with any other
  code is followed by one backoff and is not retried: the loop ends with that error. Both
  kinds of failure take their delays from the same schedule.
\<close>

theorem WriteToCloudWatch_retry_policy:
  "n \<le> 5 \<Longrightarrow> \<forall>j<n. \<exists>e. svc j = Some e \<and> retryable e \<Longrightarrow>
   r = WriteToCloudWatch svc (c, eff) \<Longrightarrow>
   (n = 5 \<longrightarrow>
      calls (snd (fst r)) = calls eff + 5
      \<and> slept (snd (fst r)) = slept eff @ backoffSchedule (retries c) 5
      \<and> snd r = svc 4)
   \<and> (\<forall>e. n < 5 \<and> svc n = Some e \<and> \<not> retryable e \<longrightarrow>
         calls (snd (fst r)) = calls eff + n + 1
         \<and> slept (snd (fst r)) = slept eff @ backoffSchedule (retries c) (n + 1)
         \<and> snd r = Some e)
   \<and> (\<forall>e. retryable e \<longleftrightarrow>
         e = NotAwsError \<or> e = AwsError ''LimitExceeded'' \<or> e = AwsError ''InternalServiceError'')
   \<and> (\<forall>k. backoffSchedule (retries c) k
            = map (\<lambda>j. backoffInMillis (retries c + int j)) [0..<k])"
proof (intro conjI impI allI)
  assume n: "n \<le> 5" and fails: "\<forall>j<n. \<exists>e. svc j = Some e \<and> retryable e"
    and r: "r = WriteToCloudWatch svc (c, eff)"
  have n': "n \<le> defaultRetryCount" using n by (simp add: defaultRetryCount_def)
  note run = WriteToCloudWatch_retries [OF n' fails, of "(c, eff)"]
  {
    assume "n = 5"
    then have "r = ((failedAttempt ^^ 5) (c, eff), svc 4)"
      using run r by (simp add: writeLoop_exhausted defaultRetryCount_def)
    then show "calls (snd (fst r)) = calls eff + 5"
      and "slept (snd (fst r)) = slept eff @ backoffSchedule (retries c) 5"
      and "snd r = svc 4"
      by (simp_all add: failedAttempt_funpow)
  }
  {
    fix e
    assume e: "n < 5 \<and> svc n = Some e \<and> \<not> retryable e"
    then have "n < defaultRetryCount" by (simp add: defaultRetryCount_def)
    with e have "r = (failedAttempt ((failedAttempt ^^ n) (c, eff)), Some e)"
      using run r writeLoop_other [of n svc e] by simp
    then have "r = ((failedAttempt ^^ (n + 1)) (c, eff), Some e)"
      by simp
    then show "calls (snd (fst r)) = calls eff + n + 1"
      and "slept (snd (fst r)) = slept eff @ backoffSchedule (retries c) (n + 1)"
      and "snd r = Some e"
      by (simp_all only: failedAttempt_funpow, simp_all)
  }
next
  fix e
  show "retryable e \<longleftrightarrow>
         e = NotAwsError \<or> e = AwsError ''LimitExceeded'' \<or> e = AwsError ''InternalServiceError''"
    by (cases e)
       (auto simp: retryable_def ErrCodeLimitExceededFault_def ErrCodeInternalServiceFault_def)
next
  fix k
  show "backoffSchedule (retries c) k = map (\<lambda>j. backoffInMillis (retries c + int j)) [0..<k]"
    by (simp add: backoffSchedule_def)
qed

theorem WriteToCloudWatch_retry_policy_witness:
  "map exampleFailingService [0, 1, 2, 3, 4]
     = [Some NotAwsError, Some (AwsError ''InternalServiceError''), Some NotAwsError,
        Some (AwsError ''InternalServiceError''), Some NotAwsError]
   \<and> retryable NotAwsError \<and> retryable (AwsError ''InternalServiceError'')
   \<and> calls (snd (fst (WriteToCloudWatch exampleFailingService (exampleCloudWatch, exampleEffects))))
       = 5
   \<and> slept (snd (fst (WriteToCloudWatch exampleFailingService (exampleCloudWatch, exampleEffects))))
       = [200, 400, 800, 1600, 3200]
   \<and> snd (WriteToCloudWatch exampleFailingService (exampleCloudWatch, exampleEffects))
       = Some NotAwsError"
proof -
  have fails: "\<forall>j<5. \<exists>e. exampleFailingService j = Some e \<and> retryable e"
    by (simp add: exampleFailingService_def retryable_def ErrCodeInternalServiceFault_def)
  have sched: "backoffSchedule (retries exampleCloudWatch) 5 = [200, 400, 800, 1600, 3200]"
    by (simp add: retry_simps exampleCloudWatch_def upt_conv_Cons)
  from WriteToCloudWatch_retry_policy [OF order_refl fails refl, of exampleCloudWatch exampleEffects]
  have "calls (snd (fst (WriteToCloudWatch exampleFailingService (exampleCloudWatch, exampleEffects))))
          = calls exampleEffects + 5"
    and "slept (snd (fst (WriteToCloudWatch exampleFailingService (exampleCloudWatch, exampleEffects))))
          = slept exampleEffects @ backoffSchedule (retries exampleCloudWatch) 5"
    and "snd (WriteToCloudWatch exampleFailingService (exampleCloudWatch, exampleEffects))
          = exampleFailingService 4"
    by blast+
  then show ?thesis
    by (simp add: sched exampleEffects_def exampleFailingService_def retryable_def
          ErrCodeInternalServiceFault_def)
qed

text \<open>
  Claim C6. \<open>backoffSleep\<close> sleeps a delay computed from the value the shared counter
  has on entry and increments the counter: for a counter from 0 to 5 the delay is
  200 ms \<times> 2 to the power of the counter, and from 6 on it is the fixed delay of one
  minute. A run of \<open>WriteToCloudWatch\<close> that ends without an error has set the counter to
  0; such a run exists: when the send number \<open>n\<close> (counted from 0, below 5) succeeds after
  \<open>n\<close> failed sends that are retried, the counter is 0 afterwards, \<open>n\<close> backoffs have
  been slept and \<open>n + 1\<close> calls made.
\<close>

theorem backoffSleep_schedule_and_reset:
  "backoffSleep (c, eff) =
     (c\<lparr>retries := retries c + 1\<rparr>, eff\<lparr>slept := slept eff @ [backoffInMillis (retries c)]\<rparr>)
   \<and> (0 \<le> retries c \<and> retries c \<le> 5 \<longrightarrow> backoffInMillis (retries c) = 200 * 2 ^ nat (retries c))
   \<and> (6 \<le> retries c \<longrightarrow> backoffInMillis (retries c) = 60000)
   \<and> (snd (WriteToCloudWatch svc (c, eff)) = None \<longrightarrow>
        retries (fst (fst (WriteToCloudWatch svc (c, eff)))) = 0)
   \<and> (n < 5 \<and> (\<forall>j<n. \<exists>e. svc j = Some e \<and> retryable e) \<and> svc n = None \<longrightarrow>
        WriteToCloudWatch svc (c, eff) =
          ((c\<lparr>retries := 0\<rparr>,
            eff\<lparr>slept := slept eff @ backoffSchedule (retries c) n, calls := calls eff + n + 1\<rparr>),
           None))"
proof (intro conjI impI)
  show "backoffSleep (c, eff) =
     (c\<lparr>retries := retries c + 1\<rparr>, eff\<lparr>slept := slept eff @ [backoffInMillis (retries c)]\<rparr>)"
    by (simp add: backoffSleep_def)
  show "backoffInMillis (retries c) = 200 * 2 ^ nat (retries c)"
    if "0 \<le> retries c \<and> retries c \<le> 5"
    using that by (simp add: backoffInMillis_def defaultRetryCount_def backoffRetryBase_def)
  show "backoffInMillis (retries c) = 60000" if "6 \<le> retries c"
    using that by (simp add: backoffInMillis_def defaultRetryCount_def)
  show "retries (fst (fst (WriteToCloudWatch svc (c, eff)))) = 0"
    if "snd (WriteToCloudWatch svc (c, eff)) = None"
    using that unfolding WriteToCloudWatch_def
    by (intro writeLoop_success_resets) (simp_all add: defaultRetryCount_def)
  show "WriteToCloudWatch svc (c, eff) =
          ((c\<lparr>retries := 0\<rparr>,
            eff\<lparr>slept := slept eff @ backoffSchedule (retries c) n, calls := calls eff + n + 1\<rparr>),
           None)"
    if h: "n < 5 \<and> (\<forall>j<n. \<exists>e. svc j = Some e \<and> retryable e) \<and> svc n = None"
  proof -
    from h have n: "n \<le> defaultRetryCount" "n < defaultRetryCount"
      by (simp_all add: defaultRetryCount_def)
    from h have fails: "\<forall>j<n. \<exists>e. svc j = Some e \<and> retryable e" by blast
    from h have ok: "svc n = None" by blast
    have "writeLoop svc n err st =
            ((fst st\<lparr>retries := 0\<rparr>, (snd st)\<lparr>calls := calls (snd st) + 1\<rparr>), None)" for err st
      using n(2) ok by (rule writeLoop_success [of n svc err st])
    then show ?thesis
      by (simp add: WriteToCloudWatch_retries [OF n(1) fails] failedAttempt_funpow)
  qed
qed

theorem backoffSleep_schedule_and_reset_witness:
  "map exampleThrottledService [0, 1, 2, 3]
     = [Some (AwsError ''LimitExceeded''), Some (AwsError ''LimitExceeded''),
        Some (AwsError ''LimitExceeded''), None]
   \<and> retryable (AwsError ''LimitExceeded'')
   \<and> WriteToCloudWatch exampleThrottledService (exampleCloudWatch\<lparr>retries := 4\<rparr>, exampleEffects)
       = ((exampleCloudWatch\<lparr>retries := 0\<rparr>, \<lparr>slept = [3200, 6400, 60000], calls = 4\<rparr>), None)
   \<and> backoffSleep (exampleCloudWatch, exampleEffects)
       = (exampleCloudWatch\<lparr>retries := 1\<rparr>, \<lparr>slept = [200], calls = 0\<rparr>)"
proof -
  have fails: "\<forall>j<3. \<exists>e. exampleThrottledService j = Some e \<and> retryable e"
    by (simp add: exampleThrottledService_def retryable_def ErrCodeLimitExceededFault_def)
  have ok: "exampleThrottledService 3 = None"
    by (simp add: exampleThrottledService_def)
  have sched: "backoffSchedule 4 3 = [3200, 6400, 60000]"
    by (simp add: retry_simps upt_conv_Cons)
  have r0: "retries exampleCloudWatch = 0"
    by (simp add: exampleCloudWatch_def)
  from backoffSleep_schedule_and_reset
         [of "exampleCloudWatch\<lparr>retries := 4\<rparr>" exampleEffects exampleThrottledService 3]
       fails ok
  have "WriteToCloudWatch exampleThrottledService (exampleCloudWatch\<lparr>retries := 4\<rparr>, exampleEffects)
       = ((exampleCloudWatch\<lparr>retries := 0\<rparr>, \<lparr>slept = [3200, 6400, 60000], calls = 4\<rparr>), None)"
    by (simp add: sched exampleEffects_def)
  moreover
  from backoffSleep_schedule_and_reset [of exampleCloudWatch exampleEffects]
  have "backoffSleep (exampleCloudWatch, exampleEffects)
       = (exampleCloudWatch\<lparr>retries := 1\<rparr>, \<lparr>slept = [200], calls = 0\<rparr>)"
    by (simp add: r0 exampleEffects_def)
  ultimately show ?thesis
    by (simp add: exampleThrottledService_def retryable_def ErrCodeLimitExceededFault_def)
qed

end
